theory Spec2Isabelle
  imports Complex_Main
begin

section \<open>Characters and strings as the parser sees them\<close>

text \<open>
  The receipt parser of \<^verbatim>\<open>backend/app.py\<close> (class \<^verbatim>\<open>EnhancedReceiptOCR\<close>) works on
  Python \<^verbatim>\<open>str\<close> values. A text is modelled as a \<^typ>\<open>string\<close>, one \<^typ>\<open>char\<close> per code
  point, so the model covers the texts whose code points lie below 256. The character
  classes below are Python's classes restricted to that range.
\<close>

definition is_digit :: "char \<Rightarrow> bool" where
  \<comment> \<open>\<^verbatim>\<open>\d\<close>: the decimal digits.\<close>
  "is_digit c \<longleftrightarrow> c \<in> set ''0123456789''"

definition is_space :: "char \<Rightarrow> bool" where
  \<comment> \<open>\<^verbatim>\<open>\s\<close> and \<^verbatim>\<open>str.isspace\<close>: tab to carriage return, the four separators, space,
      next-line and no-break space.\<close>
  "is_space c \<longleftrightarrow> c \<in> set [CHR 0x09, CHR 0x0A, CHR 0x0B, CHR 0x0C, CHR 0x0D,
      CHR 0x1C, CHR 0x1D, CHR 0x1E, CHR 0x1F, CHR 0x20, CHR 0x85, CHR 0xA0]"

definition is_word :: "char \<Rightarrow> bool" where
  \<comment> \<open>\<^verbatim>\<open>\w\<close>: \<^verbatim>\<open>str.isalnum\<close> or the underscore.\<close>
  "is_word c \<longleftrightarrow> (let n = (of_char c :: nat) in
      (48 \<le> n \<and> n \<le> 57) \<or> (65 \<le> n \<and> n \<le> 90) \<or> n = 95 \<or> (97 \<le> n \<and> n \<le> 122) \<or>
      n \<in> set [0xAA, 0xB2, 0xB3, 0xB5, 0xB9, 0xBA, 0xBC, 0xBD, 0xBE] \<or>
      (0xC0 \<le> n \<and> n \<le> 0xD6) \<or> (0xD8 \<le> n \<and> n \<le> 0xF6) \<or> (0xF8 \<le> n \<and> n \<le> 0xFF))"

definition py_lower :: "char \<Rightarrow> char" where
  \<comment> \<open>\<^verbatim>\<open>str.lower\<close> on one code point.\<close>
  "py_lower c = (let n = (of_char c :: nat) in
      if (65 \<le> n \<and> n \<le> 90) \<or> (0xC0 \<le> n \<and> n \<le> 0xDE \<and> n \<noteq> 0xD7)
      then char_of (n + 32) else c)"

definition lower :: "string \<Rightarrow> string" where
  "lower s = map py_lower s"

definition strip :: "string \<Rightarrow> string" where
  \<comment> \<open>\<^verbatim>\<open>str.strip()\<close>: drop leading and trailing whitespace.\<close>
  "strip s = rev (dropWhile is_space (rev (dropWhile is_space s)))"

fun split_on :: "char \<Rightarrow> string \<Rightarrow> string list" where
  \<comment> \<open>\<^verbatim>\<open>str.split(sep)\<close> for a one-character separator: always at least one piece.\<close>
  "split_on sep [] = [[]]"
| "split_on sep (x # xs) =
     (if x = sep then [] # split_on sep xs
      else (case split_on sep xs of [] \<Rightarrow> [[x]] | w # ws \<Rightarrow> (x # w) # ws))"

fun split_ws :: "string \<Rightarrow> string list" where
  \<comment> \<open>\<^verbatim>\<open>str.split()\<close>: the maximal runs of non-whitespace characters.\<close>
  "split_ws [] = []"
| "split_ws (x # xs) =
     (if is_space x then split_ws xs
      else (case xs of [] \<Rightarrow> [[x]]
            | y # ys \<Rightarrow> if is_space y then [x] # split_ws xs
                        else (case split_ws xs of [] \<Rightarrow> [[x]] | w # ws \<Rightarrow> (x # w) # ws)))"

fun join :: "string \<Rightarrow> string list \<Rightarrow> string" where
  \<comment> \<open>\<^verbatim>\<open>sep.join(parts)\<close>.\<close>
  "join sep [] = []"
| "join sep [w] = w"
| "join sep (w # ws) = w @ sep @ join sep ws"

fun zfill2 :: "string \<Rightarrow> string" where
  \<comment> \<open>\<^verbatim>\<open>s.zfill(2)\<close>: pad with zeros on the left to width 2, after a leading sign.\<close>
  "zfill2 [] = ''00''"
| "zfill2 [c] = (if c = CHR ''+'' \<or> c = CHR ''-'' then [c, CHR ''0''] else [CHR ''0'', c])"
| "zfill2 s = s"

definition digits_only :: "string \<Rightarrow> string" where
  \<comment> \<open>\<^verbatim>\<open>re.sub(r'[^\d]', '', s)\<close>.\<close>
  "digits_only s = filter is_digit s"

definition digit_val :: "char \<Rightarrow> int" where
  "digit_val c = int (of_char c) - 48"

definition int_max_str_digits :: int where
  \<comment> \<open>\<^verbatim>\<open>sys.int_max_str_digits\<close>, CPython's limit on the length of a decimal string that
      \<^verbatim>\<open>int()\<close> converts.\<close>
  "int_max_str_digits = 4300"

definition py_int :: "string \<Rightarrow> int option" where
  \<comment> \<open>\<^verbatim>\<open>int(s)\<close> on the strings the parser passes to it, which hold decimal digits only
      or are empty: \<open>None\<close> is the \<^verbatim>\<open>ValueError\<close> of the empty string and of a string
      of more than 4300 digits.\<close>
  "py_int s = (if s \<noteq> [] \<and> list_all is_digit s \<and> int (length s) \<le> int_max_str_digits
               then Some (foldl (\<lambda>acc c. 10 * acc + digit_val c) 0 s) else None)"

section \<open>Regular expressions with Python's backtracking order\<close>

text \<open>
  The patterns of the parser use literals, the classes \<^verbatim>\<open>\d\<close>, \<^verbatim>\<open>\s\<close>, \<^verbatim>\<open>\w\<close>, the dot,
  bracket sets, counted repetition of a single character class (greedy or lazy),
  sequence, ordered alternation, optional groups, capturing groups and the anchors
  \<^verbatim>\<open>^\<close> and \<^verbatim>\<open>$\<close>. The matcher below tries the alternatives in the order of the
  \<^verbatim>\<open>re\<close> module and returns the first success.
\<close>

datatype citem = CC char | CD | CS | CW

datatype atom = Lit char | Dot | Dig | Spc | Set "citem list" | NSet "citem list"

datatype regex =
    Eps
  | At atom
  | Rep atom nat "nat option" bool
  | Seq regex regex
  | Alt regex regex
  | Opt regex
  | Grp nat regex
  | Bol
  | Eol

fun citem_ok :: "bool \<Rightarrow> citem \<Rightarrow> char \<Rightarrow> bool" where
  "citem_ok ic (CC l) c = (if ic then py_lower c = py_lower l else c = l)"
| "citem_ok ic CD c = is_digit c"
| "citem_ok ic CS c = is_space c"
| "citem_ok ic CW c = is_word c"

fun atom_ok :: "bool \<Rightarrow> atom \<Rightarrow> char \<Rightarrow> bool" where
  "atom_ok ic (Lit l) c = (if ic then py_lower c = py_lower l else c = l)"
| "atom_ok ic Dot c = (c \<noteq> CHR 0x0A)"
| "atom_ok ic Dig c = is_digit c"
| "atom_ok ic Spc c = is_space c"
| "atom_ok ic (Set is) c = list_ex (\<lambda>i. citem_ok ic i c) is"
| "atom_ok ic (NSet is) c = (\<not> list_ex (\<lambda>i. citem_ok ic i c) is)"

type_synonym caps = "string option list"

text \<open>
  The matcher keeps the rest of the pattern as a stack of frames: a regular expression
  still to be matched, or the end of a capturing group (with the position and the text where
  the group began). A failed alternative returns \<open>None\<close> and the next one is tried from
  the same position, which is the backtracking of the \<^verbatim>\<open>re\<close> module.
\<close>

datatype frame = R regex | End nat nat string

fun more :: "nat option \<Rightarrow> bool" where
  \<comment> \<open>May a repetition with this upper bound take one more character?\<close>
  "more None = True"
| "more (Some h) = (0 < h)"

fun dec :: "nat option \<Rightarrow> nat option" where
  "dec None = None"
| "dec (Some h) = Some (h - 1)"

fun rweight :: "regex \<Rightarrow> nat" where
  "rweight (Seq r1 r2) = Suc (rweight r1 + rweight r2)"
| "rweight (Alt r1 r2) = Suc (rweight r1 + rweight r2)"
| "rweight (Opt r) = Suc (rweight r)"
| "rweight (Grp i r) = Suc (Suc (rweight r))"
| "rweight r = 1"

fun fweight :: "frame \<Rightarrow> nat" where
  "fweight (R r) = rweight r"
| "fweight (End i p s) = 1"

function (sequential) run :: "bool \<Rightarrow> frame list \<Rightarrow> nat \<Rightarrow> string \<Rightarrow> caps \<Rightarrow> caps option" where
  "run ic [] p s c = Some c"
| "run ic (End i p0 s0 # ks) p s c = run ic ks p s (c[i := Some (take (p - p0) s0)])"
| "run ic (R Eps # ks) p s c = run ic ks p s c"
| "run ic (R (At a) # ks) p [] c = None"
| "run ic (R (At a) # ks) p (x # xs) c =
     (if atom_ok ic a x then run ic ks (Suc p) xs c else None)"
| "run ic (R (Seq r1 r2) # ks) p s c = run ic (R r1 # R r2 # ks) p s c"
| "run ic (R (Alt r1 r2) # ks) p s c =
     (case run ic (R r1 # ks) p s c of Some c' \<Rightarrow> Some c' | None \<Rightarrow> run ic (R r2 # ks) p s c)"
| "run ic (R (Opt r) # ks) p s c =
     (case run ic (R r # ks) p s c of Some c' \<Rightarrow> Some c' | None \<Rightarrow> run ic ks p s c)"
| "run ic (R (Grp i r) # ks) p s c = run ic (R r # End i p s # ks) p s c"
| "run ic (R Bol # ks) p s c = (if p = 0 then run ic ks p s c else None)"
| "run ic (R Eol # ks) p s c =
     (if s = [] \<or> s = [CHR 0x0A] then run ic ks p s c else None)"
| "run ic (R (Rep a lo hi greedy) # ks) p [] c = (if lo = 0 then run ic ks p [] c else None)"
| "run ic (R (Rep a lo hi True) # ks) p (x # xs) c =
     (if more hi \<and> atom_ok ic a x
      then (case run ic (R (Rep a (lo - 1) (dec hi) True) # ks) (Suc p) xs c of
              Some c' \<Rightarrow> Some c'
            | None \<Rightarrow> if lo = 0 then run ic ks p (x # xs) c else None)
      else if lo = 0 then run ic ks p (x # xs) c else None)"
| "run ic (R (Rep a lo hi False) # ks) p (x # xs) c =
     (case (if lo = 0 then run ic ks p (x # xs) c else None) of
        Some c' \<Rightarrow> Some c'
      | None \<Rightarrow>
          if more hi \<and> atom_ok ic a x
          then run ic (R (Rep a (lo - 1) (dec hi) False) # ks) (Suc p) xs c else None)"
  by pat_completeness auto
termination
  by (relation "measures [\<lambda>(ic, ks, p, s, c). sum_list (map fweight ks),
                          \<lambda>(ic, ks, p, s, c). length s]") auto

fun ngroups :: "regex \<Rightarrow> nat" where
  \<comment> \<open>One more than the largest group index: the length of \<^verbatim>\<open>match.groups()\<close>.\<close>
  "ngroups (Grp i r) = max (Suc i) (ngroups r)"
| "ngroups (Seq r1 r2) = max (ngroups r1) (ngroups r2)"
| "ngroups (Alt r1 r2) = max (ngroups r1) (ngroups r2)"
| "ngroups (Opt r) = ngroups r"
| "ngroups _ = 0"

fun search_from :: "bool \<Rightarrow> regex \<Rightarrow> nat \<Rightarrow> string \<Rightarrow> caps option" where
  \<comment> \<open>Try the start positions from left to right.\<close>
  "search_from ic r p [] = run ic [R r] p [] (replicate (ngroups r) None)"
| "search_from ic r p (x # xs) =
     (case run ic [R r] p (x # xs) (replicate (ngroups r) None) of
        Some c \<Rightarrow> Some c
      | None \<Rightarrow> search_from ic r (Suc p) xs)"

definition re_search :: "bool \<Rightarrow> regex \<Rightarrow> string \<Rightarrow> caps option" where
  \<comment> \<open>\<^verbatim>\<open>re.search(pattern, s, flags)\<close>, reduced to \<^verbatim>\<open>match.groups()\<close>: the leftmost
      match, \<open>ic\<close> for \<^verbatim>\<open>re.IGNORECASE\<close>. Groups are numbered from 0 here.\<close>
  "re_search ic r s = search_from ic r 0 s"

definition lit :: "string \<Rightarrow> regex" where
  "lit s = foldr (\<lambda>c r. Seq (At (Lit c)) r) s Eps"

definition cat :: "regex list \<Rightarrow> regex" where
  "cat rs = foldr Seq rs Eps"

fun alts :: "regex \<Rightarrow> regex list \<Rightarrow> regex" where
  \<comment> \<open>\<^verbatim>\<open>a|b|c\<close>, tried from left to right.\<close>
  "alts r [] = r"
| "alts r (r' # rs) = Alt r (alts r' rs)"


section \<open>Double-precision arithmetic\<close>

text \<open>
  A Python \<^verbatim>\<open>float\<close> is an IEEE 754 binary64 number. A finite double is modelled by the
  rational number it denotes; every operation rounds the exact result to 53 significant
  bits, to nearest, ties to even. The values that occur in the parser stay in the normal
  range, apart from the conversion of a very large \<^verbatim>\<open>int\<close>, which raises
  \<^verbatim>\<open>OverflowError\<close>.
\<close>

function bit_len :: "int \<Rightarrow> int" where
  \<comment> \<open>The number of binary digits of a positive integer.\<close>
  "bit_len n = (if n \<le> 0 then 0 else 1 + bit_len (n div 2))"
  by pat_completeness auto
termination
  by (relation "measure nat") auto

declare bit_len.simps [simp del]

function pow2n :: "int \<Rightarrow> int" where
  \<comment> \<open>\<open>2\<^sup>e\<close> for \<open>e \<ge> 0\<close>, by repeated squaring.\<close>
  "pow2n e = (if e \<le> 0 then 1
              else let h = pow2n (e div 2) in if even e then h * h else 2 * (h * h))"
  by pat_completeness auto
termination
  by (relation "measure nat") auto

declare pow2n.simps [simp del]

definition pow2 :: "int \<Rightarrow> rat" where
  "pow2 e = (if 0 \<le> e then of_int (pow2n e) else 1 / of_int (pow2n (- e)))"

definition round_half_even :: "rat \<Rightarrow> int" where
  "round_half_even x =
     (let f = \<lfloor>x\<rfloor>; d = x - of_int f
      in if d < 1 / 2 then f else if 1 / 2 < d then f + 1 else if even f then f else f + 1)"

definition ilog2 :: "rat \<Rightarrow> int" where
  \<comment> \<open>\<open>\<lfloor>log\<^sub>2 x\<rfloor>\<close> of a positive rational, from the bit lengths of its numerator and
      denominator.\<close>
  "ilog2 x = (case quotient_of x of (p, q) \<Rightarrow>
      let k = bit_len p - bit_len q
      in if pow2 k \<le> x then k else k - 1)"

definition round_double :: "rat \<Rightarrow> rat" where
  "round_double x =
     (if x = 0 then 0
      else let e = ilog2 \<bar>x\<bar> - 52 in of_int (round_half_even (x / pow2 e)) * pow2 e)"

definition fadd :: "rat \<Rightarrow> rat \<Rightarrow> rat" where
  "fadd a b = round_double (a + b)"

definition fmul :: "rat \<Rightarrow> rat \<Rightarrow> rat" where
  "fmul a b = round_double (a * b)"

datatype py_error = TypeError | ValueError | OverflowError | IndexError

definition int_to_double :: "int \<Rightarrow> py_error + rat" where
  \<comment> \<open>The conversion of the \<^verbatim>\<open>int\<close> operand of a mixed \<^verbatim>\<open>int * float\<close> product: a value
      that rounds to \<open>2\<^sup>1\<^sup>0\<^sup>2\<^sup>4\<close> or more raises \<^verbatim>\<open>OverflowError\<close>.\<close>
  "int_to_double n =
     (let r = round_double (of_int n)
      in if r = 0 \<or> ilog2 \<bar>r\<bar> < 1024 then Inr r else Inl OverflowError)"

section \<open>The parsed receipt\<close>

record item =
  name :: string
  quantity :: int
  price :: int

record parsed_data =
  merchantName :: string
  date :: string
  items :: "item list"
  total :: int
  confidence :: rat
  raw_text :: string

text \<open>
  The outcome of a \<^verbatim>\<open>try\<close> block inside a pattern loop: an exception was raised (the
  handler says \<^verbatim>\<open>continue\<close>), or the block reached its \<^verbatim>\<open>break\<close>.
\<close>

datatype 'a tried = Raised | Broke 'a

section \<open>The patterns\<close>

definition currency :: regex where
  \<comment> \<open>\<^verbatim>\<open>(?:RP\.?|IDR|Rp)\<close>\<close>
  "currency = alts (Seq (lit ''RP'') (Rep (Lit CHR ''.'') 0 (Some 1) True)) [lit ''IDR'', lit ''Rp'']"

definition amount_set :: atom where
  \<comment> \<open>\<^verbatim>\<open>[\d\.,]\<close>\<close>
  "amount_set = Set [CD, CC CHR ''.'', CC CHR '','']"

definition date_sep :: atom where
  \<comment> \<open>\<^verbatim>\<open>[\/\-\.]\<close>\<close>
  "date_sep = Set [CC CHR ''/'', CC CHR ''-'', CC CHR ''.'']"

definition spaces0 :: regex where
  \<comment> \<open>\<^verbatim>\<open>\s*\<close>\<close>
  "spaces0 = Rep Spc 0 None True"

definition spaces1 :: regex where
  \<comment> \<open>\<^verbatim>\<open>\s+\<close>\<close>
  "spaces1 = Rep Spc 1 None True"

definition date_pattern_0 :: regex where
  \<comment> \<open>\<^verbatim>\<open>(\d{1,2})[\/\-\.](\d{1,2})[\/\-\.](\d{2,4})\<close>\<close>
  "date_pattern_0 =
     cat [Grp 0 (Rep Dig 1 (Some 2) True), At date_sep, Grp 1 (Rep Dig 1 (Some 2) True),
          At date_sep, Grp 2 (Rep Dig 2 (Some 4) True)]"

definition date_pattern_1 :: regex where
  \<comment> \<open>\<^verbatim>\<open>(\d{2,4})[\/\-\.](\d{1,2})[\/\-\.](\d{1,2})\<close>\<close>
  "date_pattern_1 =
     cat [Grp 0 (Rep Dig 2 (Some 4) True), At date_sep, Grp 1 (Rep Dig 1 (Some 2) True),
          At date_sep, Grp 2 (Rep Dig 1 (Some 2) True)]"

definition date_pattern_2 :: regex where
  \<comment> \<open>\<^verbatim>\<open>(\d{1,2})\s+(Jan|Feb|Mar|Apr|May|Jun|Jul|Aug|Sep|Oct|Nov|Dec)\s+(\d{2,4})\<close>\<close>
  "date_pattern_2 =
     cat [Grp 0 (Rep Dig 1 (Some 2) True), spaces1,
          Grp 1 (alts (lit ''Jan'') [lit ''Feb'', lit ''Mar'', lit ''Apr'', lit ''May'',
                 lit ''Jun'', lit ''Jul'', lit ''Aug'', lit ''Sep'', lit ''Oct'', lit ''Nov'',
                 lit ''Dec'']),
          spaces1, Grp 2 (Rep Dig 2 (Some 4) True)]"

definition date_patterns :: "regex list" where
  "date_patterns = [date_pattern_0, date_pattern_1, date_pattern_2]"

definition total_pattern_0 :: regex where
  \<comment> \<open>\<^verbatim>\<open>(?:TOTAL|GRAND\s*TOTAL|SUB\s*TOTAL|HARGA\s*JUAL)\s*:?\s*(?:RP\.?|IDR|Rp)?\s*([\d\.,]+)\<close>\<close>
  "total_pattern_0 =
     cat [alts (lit ''TOTAL'') [cat [lit ''GRAND'', spaces0, lit ''TOTAL''],
                cat [lit ''SUB'', spaces0, lit ''TOTAL''],
                cat [lit ''HARGA'', spaces0, lit ''JUAL'']],
          spaces0, Rep (Lit CHR '':'') 0 (Some 1) True, spaces0, Opt currency, spaces0,
          Grp 0 (Rep amount_set 1 None True)]"

definition total_pattern_1 :: regex where
  \<comment> \<open>\<^verbatim>\<open>(?:RP\.?|IDR|Rp)\s*([\d\.,]+)(?:\s*(?:TOTAL|JUMLAH))?\<close>\<close>
  "total_pattern_1 =
     cat [currency, spaces0, Grp 0 (Rep amount_set 1 None True),
          Opt (cat [spaces0, alts (lit ''TOTAL'') [lit ''JUMLAH'']])]"

definition total_pattern_2 :: regex where
  \<comment> \<open>\<^verbatim>\<open>TOTAL.*?([\d\.,]{4,})\<close>\<close>
  "total_pattern_2 =
     cat [lit ''TOTAL'', Rep Dot 0 None False, Grp 0 (Rep amount_set 4 None True)]"

definition total_pattern_3 :: regex where
  \<comment> \<open>\<^verbatim>\<open>([\d\.,]{4,})\s*(?:TOTAL|JUMLAH)\<close>\<close>
  "total_pattern_3 =
     cat [Grp 0 (Rep amount_set 4 None True), spaces0, alts (lit ''TOTAL'') [lit ''JUMLAH'']]"

definition total_patterns :: "regex list" where
  "total_patterns = [total_pattern_0, total_pattern_1, total_pattern_2, total_pattern_3]"

definition item_pattern_1 :: regex where
  \<comment> \<open>Pattern 1: Item Qty Price Total,
      \<^verbatim>\<open>^(.+?)\s+(\d+)\s+(?:RP\.?|IDR|Rp)?\s*([\d\.,]+)\s+(?:RP\.?|IDR|Rp)?\s*([\d\.,]+)$\<close>\<close>
  "item_pattern_1 =
     cat [Bol, Grp 0 (Rep Dot 1 None False), spaces1, Grp 1 (Rep Dig 1 None True), spaces1,
          Opt currency, spaces0, Grp 2 (Rep amount_set 1 None True), spaces1,
          Opt currency, spaces0, Grp 3 (Rep amount_set 1 None True), Eol]"

definition item_pattern_2 :: regex where
  \<comment> \<open>Pattern 2: Item Qty x Price,
      \<^verbatim>\<open>^(.+?)\s+(\d+)\s*[xX*]\s*(?:RP\.?|IDR|Rp)?\s*([\d\.,]+)\<close>\<close>
  "item_pattern_2 =
     cat [Bol, Grp 0 (Rep Dot 1 None False), spaces1, Grp 1 (Rep Dig 1 None True), spaces0,
          At (Set [CC CHR ''x'', CC CHR ''X'', CC CHR ''*'']), spaces0,
          Opt currency, spaces0, Grp 2 (Rep amount_set 1 None True)]"

definition item_pattern_3 :: regex where
  \<comment> \<open>Pattern 3: Item Total,
      \<^verbatim>\<open>^(.+?)\s+(?:RP\.?|IDR|Rp)?\s*([\d\.,]{4,})$\<close>\<close>
  "item_pattern_3 =
     cat [Bol, Grp 0 (Rep Dot 1 None False), spaces1, Opt currency, spaces0,
          Grp 1 (Rep amount_set 4 None True), Eol]"

definition item_pattern_4 :: regex where
  \<comment> \<open>Pattern 4: Item with quantity in parentheses,
      \<^verbatim>\<open>^(.+?)\s*\((\d+)\)\s*(?:RP\.?|IDR|Rp)?\s*([\d\.,]+)\<close>\<close>
  "item_pattern_4 =
     cat [Bol, Grp 0 (Rep Dot 1 None False), spaces0, At (Lit CHR ''(''),
          Grp 1 (Rep Dig 1 None True), At (Lit CHR '')''), spaces0,
          Opt currency, spaces0, Grp 2 (Rep amount_set 1 None True)]"

definition item_patterns :: "regex list" where
  "item_patterns = [item_pattern_1, item_pattern_2, item_pattern_3, item_pattern_4]"

definition skip_pattern :: regex where
  \<comment> \<open>\<^verbatim>\<open>(?:NAMA|ITEM|QTY|HARGA|TOTAL|GRAND|SUB|KASIR|TANGGAL|NO\.)\<close>\<close>
  "skip_pattern = alts (lit ''NAMA'') [lit ''ITEM'', lit ''QTY'', lit ''HARGA'', lit ''TOTAL'',
      lit ''GRAND'', lit ''SUB'', lit ''KASIR'', lit ''TANGGAL'', lit ''NO.'']"


section \<open>Field extraction\<close>

definition split_lines :: "string \<Rightarrow> string list" where
  \<comment> \<open>\<^verbatim>\<open>[line.strip() for line in text.split('\n') if line.strip()]\<close>\<close>
  "split_lines text = filter (\<lambda>l. l \<noteq> []) (map strip (split_on (CHR 0x0A) text))"

subsection \<open>Merchant name\<close>

definition has_digit_run :: "string \<Rightarrow> bool" where
  \<comment> \<open>\<^verbatim>\<open>re.search(r'\d{3,}', line)\<close>\<close>
  "has_digit_run line \<longleftrightarrow> re_search False (Rep Dig 3 None True) line \<noteq> None"

definition clean_merchant :: "string \<Rightarrow> string" where
  \<comment> \<open>\<^verbatim>\<open>' '.join(re.sub(r'[^\w\s&.-]', ' ', line).split())\<close>\<close>
  "clean_merchant line =
     join '' '' (split_ws (map (\<lambda>c. if atom_ok False (NSet [CW, CS, CC CHR ''&'', CC CHR ''.'',
        CC CHR ''-'']) c then CHR '' '' else c) line))"

fun extract_merchant :: "string list \<Rightarrow> string" where
  "extract_merchant [] = []"
| "extract_merchant (line # rest) =
     (if \<not> has_digit_run line \<and> length line > 3 \<and> length line < 50
      then (let cleaned = clean_merchant line
            in if length cleaned > 3 then cleaned else extract_merchant rest)
      else extract_merchant rest)"

subsection \<open>Date\<close>

text \<open>
  The body of the \<^verbatim>\<open>try\<close> block of the date loop, for the pattern at position \<open>i\<close> of
  \<^verbatim>\<open>date_patterns\<close> (the three pattern strings differ, so the comparisons
  \<^verbatim>\<open>pattern == date_patterns[0]\<close> and \<^verbatim>\<open>pattern == date_patterns[1]\<close> identify the
  position). The result \<open>Broke None\<close> is a \<^verbatim>\<open>break\<close> without an assignment.
\<close>

fun date_try :: "nat \<Rightarrow> caps \<Rightarrow> string option tried" where
  "date_try 0 [Some day, Some month, Some year] =
     Broke (Some ((if length year = 2 then ''20'' @ year else year) @ ''-'' @ zfill2 month
                  @ ''-'' @ zfill2 day))"
| "date_try (Suc 0) [Some year, Some month, Some day] =
     Broke (Some (year @ ''-'' @ zfill2 month @ ''-'' @ zfill2 day))"
| "date_try (Suc (Suc n)) groups = Broke None"
| "date_try i groups = Raised"

fun date_of_line :: "(nat \<times> regex) list \<Rightarrow> string \<Rightarrow> string \<Rightarrow> string" where
  \<comment> \<open>The inner loop over the patterns, for one line; \<open>d\<close> is the date so far.\<close>
  "date_of_line [] line d = d"
| "date_of_line ((i, pat) # pats) line d =
     (case re_search True pat line of
        None \<Rightarrow> date_of_line pats line d
      | Some groups \<Rightarrow>
          (case date_try i groups of
             Raised \<Rightarrow> date_of_line pats line d
           | Broke None \<Rightarrow> d
           | Broke (Some d') \<Rightarrow> d'))"

definition extract_date :: "string list \<Rightarrow> string \<Rightarrow> string" where
  \<comment> \<open>The outer loop over the lines: it has no \<^verbatim>\<open>break\<close> of its own.\<close>
  "extract_date lines d0 =
     foldl (\<lambda>d line. date_of_line (enumerate 0 date_patterns) line d) d0 lines"

subsection \<open>Total\<close>

fun total_of_line :: "regex list \<Rightarrow> string \<Rightarrow> int \<Rightarrow> py_error + int" where
  \<comment> \<open>The inner loop over the patterns, for one line; \<open>t\<close> is the total so far. The
      \<^verbatim>\<open>break\<close> sits inside the length test.\<close>
  "total_of_line [] line t = Inr t"
| "total_of_line (pat # pats) line t =
     (case re_search True pat line of
        None \<Rightarrow> total_of_line pats line t
      | Some [] \<Rightarrow> Inl IndexError
      | Some (None # gs) \<Rightarrow> Inl TypeError
      | Some (Some g # gs) \<Rightarrow>
          (let amount_str = digits_only g
           in if amount_str \<noteq> [] \<and> length amount_str \<ge> 3
              then (case py_int amount_str of None \<Rightarrow> Inl ValueError | Some n \<Rightarrow> Inr n)
              else total_of_line pats line t))"

fun extract_total :: "string list \<Rightarrow> int \<Rightarrow> py_error + int" where
  "extract_total [] t = Inr t"
| "extract_total (line # rest) t =
     (case total_of_line total_patterns line t of
        Inl e \<Rightarrow> Inl e
      | Inr t' \<Rightarrow> if t' > 0 then Inr t' else extract_total rest t')"

text \<open>
  The amount \<open>t\<close> is accepted on a line: some pattern matches the line with a group that
  keeps at least three digits and reads as \<open>t\<close>, and every earlier pattern that matches
  keeps fewer than three digits.
\<close>

definition accepted_amount :: "regex list \<Rightarrow> string \<Rightarrow> int \<Rightarrow> bool" where
  "accepted_amount pats line t \<longleftrightarrow>
     (\<exists>i<length pats. \<exists>g. re_search True (pats ! i) line = Some [Some g] \<and>
        3 \<le> length (digits_only g) \<and> py_int (digits_only g) = Some t \<and>
        (\<forall>j<i. \<forall>g'. re_search True (pats ! j) line = Some [Some g'] \<longrightarrow>
           length (digits_only g') < 3))"

section \<open>Line items\<close>

definition tolerance :: rat where
  \<comment> \<open>The literal \<^verbatim>\<open>0.15\<close>.\<close>
  "tolerance = round_double (15 / 100)"

fun item_try :: "caps \<Rightarrow> item list tried" where
  \<comment> \<open>The body of the \<^verbatim>\<open>try\<close> block of the item loop: the items it appends before its
      \<^verbatim>\<open>break\<close>, or \<open>Raised\<close>.\<close>
  "item_try [Some g0, Some g1, Some g2, Some g3] =
     (case (py_int g1, py_int (digits_only g2), py_int (digits_only g3)) of
        (Some qty, Some unit_price, Some total_price) \<Rightarrow>
          if unit_price > 0
          then (case int_to_double total_price of
                  Inl e \<Rightarrow> Raised
                | Inr ft \<Rightarrow>
                    if of_int \<bar>qty * unit_price - total_price\<bar> \<le> fmul ft tolerance
                    then Broke [\<lparr>name = strip g0, quantity = qty, price = unit_price\<rparr>]
                    else Broke [])
          else Broke []
      | _ \<Rightarrow> Raised)"
| "item_try [Some g0, Some g1, Some g2] =
     (case (py_int g1, py_int (digits_only g2)) of
        (Some qty, Some p) \<Rightarrow>
          if p > 0 \<and> qty > 0 then Broke [\<lparr>name = strip g0, quantity = qty, price = p\<rparr>]
          else Broke []
      | _ \<Rightarrow> Raised)"
| "item_try [Some g0, Some g1] =
     (case py_int (digits_only g1) of
        Some p \<Rightarrow>
          if p > 1000 \<and> length (strip g0) > 2
          then Broke [\<lparr>name = strip g0, quantity = 1, price = p\<rparr>]
          else Broke []
      | None \<Rightarrow> Raised)"
| "item_try groups =
     (if length groups = 4 \<or> length groups = 3 \<or> length groups = 2 then Raised else Broke [])"

fun items_of_line :: "regex list \<Rightarrow> string \<Rightarrow> item list" where
  \<comment> \<open>The inner loop over the patterns, for one line: the items the line contributes.\<close>
  "items_of_line [] line = []"
| "items_of_line (pat # pats) line =
     (case re_search True pat line of
        None \<Rightarrow> items_of_line pats line
      | Some groups \<Rightarrow>
          (case item_try groups of Raised \<Rightarrow> items_of_line pats line | Broke its \<Rightarrow> its))"

text \<open>
  What one pattern does with a line inside \<^const>\<open>items_of_line\<close>: it passes the line on to
  the next pattern when it does not match or when its \<^verbatim>\<open>try\<close> block raises; it decides
  the line, with the items \<open>its\<close>, when it matches and the block reaches its \<^verbatim>\<open>break\<close>.
\<close>

definition passes :: "regex \<Rightarrow> string \<Rightarrow> bool" where
  "passes pat line \<longleftrightarrow>
     (case re_search True pat line of None \<Rightarrow> True | Some groups \<Rightarrow> item_try groups = Raised)"

definition decides :: "regex \<Rightarrow> string \<Rightarrow> item list \<Rightarrow> bool" where
  "decides pat line its \<longleftrightarrow>
     (case re_search True pat line of None \<Rightarrow> False | Some groups \<Rightarrow> item_try groups = Broke its)"

definition is_header_line :: "string \<Rightarrow> bool" where
  "is_header_line line \<longleftrightarrow> re_search True skip_pattern line \<noteq> None"

definition collect_items :: "string list \<Rightarrow> item list" where
  "collect_items lines =
     concat (map (\<lambda>line. if is_header_line line then [] else items_of_line item_patterns line)
       lines)"

fun dedupe :: "(string \<times> int) list \<Rightarrow> item list \<Rightarrow> item list" where
  \<comment> \<open>The last loop of \<^verbatim>\<open>extract_items_smart\<close>; \<open>seen\<close> holds the keys met so far.\<close>
  "dedupe seen [] = []"
| "dedupe seen (it # its) =
     (if name it \<noteq> [] \<and> price it > 0
      then (let key = (strip (lower (name it)), price it)
            in if key \<in> set seen then dedupe seen its else it # dedupe (key # seen) its)
      else dedupe seen its)"

definition extract_items_smart :: "string list \<Rightarrow> item list" where
  "extract_items_smart lines = dedupe [] (collect_items lines)"

section \<open>Confidence and the whole parse\<close>

definition py_min :: "rat \<Rightarrow> rat \<Rightarrow> rat" where
  \<comment> \<open>\<^verbatim>\<open>min(a, b)\<close>: the first argument unless the second is smaller.\<close>
  "py_min a b = (if b < a then b else a)"

definition calculate_confidence :: "parsed_data \<Rightarrow> string \<Rightarrow> rat" where
  "calculate_confidence pd raw =
     (let score = 0;
          score = (if merchantName pd \<noteq> [] then fadd score (round_double (25 / 100)) else score);
          score = (if total pd > 0 then fadd score (round_double (35 / 100)) else score);
          score = (if items pd \<noteq> [] \<and> list_ex (\<lambda>it. name it \<noteq> []) (items pd)
                   then fadd score (round_double (25 / 100)) else score);
          score = (if length raw > 50 then fadd score (round_double (15 / 100)) else score)
      in py_min score 1)"

definition placeholder :: item where
  "placeholder = \<lparr>name = [], quantity = 1, price = 0\<rparr>"

definition smart_parse_receipt :: "string \<Rightarrow> string \<Rightarrow> py_error + parsed_data" where
  \<comment> \<open>\<open>today\<close> stands for \<^verbatim>\<open>datetime.now().strftime('%Y-%m-%d')\<close>.\<close>
  "smart_parse_receipt today text =
     (let lines = split_lines text;
          merchant = extract_merchant (take 5 lines);
          d = extract_date lines today
      in case extract_total lines 0 of
           Inl e \<Rightarrow> Inl e
         | Inr t \<Rightarrow>
             (let found = extract_items_smart lines;
                  pd = \<lparr>merchantName = merchant, date = d,
                        items = (if found = [] then [placeholder] else found),
                        total = t, confidence = 0, raw_text = text\<rparr>
              in Inr (pd\<lparr>confidence := calculate_confidence pd text\<rparr>)))"


section \<open>Groups that every match sets\<close>

fun must :: "regex \<Rightarrow> nat set" where
  \<comment> \<open>The groups on the main sequence of a pattern: outside every alternative, optional
      part and repetition, so a match cannot leave them unset.\<close>
  "must (Grp i r) = insert i (must r)"
| "must (Seq r1 r2) = must r1 \<union> must r2"
| "must (Alt r1 r2) = must r1 \<inter> must r2"
| "must r = {}"

fun must_frame :: "frame \<Rightarrow> nat set" where
  "must_frame (R r) = must r"
| "must_frame (End i p s) = {i}"

definition caps_ext :: "nat set \<Rightarrow> caps \<Rightarrow> caps \<Rightarrow> bool" where
  \<comment> \<open>\<open>c'\<close> extends \<open>c\<close>: same length, every group set in \<open>c\<close> or listed in \<open>G\<close> is set in \<open>c'\<close>.\<close>
  "caps_ext G c c' \<longleftrightarrow>
     length c' = length c \<and> list_all (\<lambda>i. (i \<in> G \<or> c ! i \<noteq> None) \<longrightarrow> c' ! i \<noteq> None) [0..<length c]"

section \<open>Evaluation support\<close>

text \<open>
  \<^const>\<open>py_lower\<close> on the eight bits of a character: an upper-case letter differs from
  its lower-case form in bit 5 only. This equation replaces the arithmetic on code points
  when a concrete input is evaluated.
\<close>

lemma py_lower_code [code]:
  "py_lower (Char b0 b1 b2 b3 b4 b5 b6 b7) =
     (if b6 \<and> \<not> b5 \<and>
         (if b7 then \<not> (b0 \<and> b1 \<and> b2 \<and> b4) \<or> (b3 \<and> \<not> (b0 \<and> b1 \<and> b2 \<and> b3 \<and> b4))
          else (b0 \<or> b1 \<or> b2 \<or> b3 \<or> b4) \<and> \<not> (b4 \<and> b3 \<and> (b2 \<or> (b1 \<and> b0))))
      then Char b0 b1 b2 b3 b4 True b6 b7 else Char b0 b1 b2 b3 b4 b5 b6 b7)"
  by (cases b0; cases b1; cases b2; cases b3; cases b4; cases b5; cases b6; cases b7;
      simp add: py_lower_def char_of_def bit_0)


section \<open>Every match sets the groups on the main sequence\<close>

lemma caps_ext_iff:
  "caps_ext G c c' \<longleftrightarrow> length c' = length c \<and> (\<forall>i<length c. (i \<in> G \<or> c ! i \<noteq> None) \<longrightarrow> c' ! i \<noteq> None)"
  by (auto simp: caps_ext_def list_all_iff)

lemma caps_ext_refl: "caps_ext {} c c"
  by (simp add: caps_ext_iff)

lemma caps_ext_trans:
  "caps_ext G1 c c1 \<Longrightarrow> caps_ext G2 c1 c2 \<Longrightarrow> caps_ext (G1 \<union> G2) c c2"
  by (auto simp: caps_ext_iff)

lemma caps_ext_mono: "caps_ext G c c' \<Longrightarrow> H \<subseteq> G \<Longrightarrow> caps_ext H c c'"
  by (auto simp: caps_ext_iff)

lemma caps_ext_update:
  "caps_ext G c c' \<Longrightarrow> caps_ext (insert i G) c (c'[i := Some v])"
  by (cases "i < length c'") (auto simp: caps_ext_iff nth_list_update)

lemma run_caps:
  "run ic ks p s c = Some c' \<Longrightarrow> caps_ext (\<Union>(must_frame ` set ks)) c c'"
proof (induction ic ks p s c rule: run.induct)
  case (1 ic p s c)
  then show ?case using caps_ext_refl by simp
next
  case (2 ic i p0 s0 ks p s c)
  then have "caps_ext (\<Union>(must_frame ` set ks)) (c[i := Some (take (p - p0) s0)]) c'"
    by simp
  then show ?case
    by (cases "i < length c") (auto simp: caps_ext_iff nth_list_update)
next
  case (7 ic r1 r2 ks p s c)
  then show ?case
    by (auto split: option.splits elim!: caps_ext_mono)
next
  case (8 ic r ks p s c)
  then show ?case
    by (auto split: option.splits elim!: caps_ext_mono)
next
  case (13 ic a lo hi ks p x xs c)
  then show ?case
    by (auto split: option.splits if_splits)
next
  case (14 ic a lo hi ks p x xs c)
  then show ?case
    by (auto split: option.splits if_splits)
qed (auto split: if_splits elim!: caps_ext_mono)

lemma search_from_caps:
  "search_from ic r p s = Some c \<Longrightarrow> caps_ext (must r) (replicate (ngroups r) None) c"
proof (induction s arbitrary: p)
  case Nil
  then show ?case using run_caps[of ic "[R r]" p "[]" "replicate (ngroups r) None" c]
    by simp
next
  case (Cons a s)
  show ?case
  proof (cases "run ic [R r] p (a # s) (replicate (ngroups r) None)")
    case None
    with Cons show ?thesis by simp
  next
    case (Some y)
    with Cons.prems have "y = c" by simp
    with Some run_caps[of ic "[R r]" p "a # s" "replicate (ngroups r) None" c]
    show ?thesis by simp
  qed
qed

lemma re_search_groups:
  assumes "re_search ic r s = Some c"
  shows "length c = ngroups r" and "\<And>i. i \<in> must r \<Longrightarrow> i < ngroups r \<Longrightarrow> c ! i \<noteq> None"
  using search_from_caps[of ic r 0 s c] assms
  by (auto simp: re_search_def caps_ext_iff)

lemma lit_groups [simp]: "ngroups (lit s) = 0" "must (lit s) = {}"
  by (induction s) (simp_all add: lit_def)

lemma total_pattern_shapes:
  "ngroups total_pattern_0 = 1" "0 \<in> must total_pattern_0"
  "ngroups total_pattern_1 = 1" "0 \<in> must total_pattern_1"
  "ngroups total_pattern_2 = 1" "0 \<in> must total_pattern_2"
  "ngroups total_pattern_3 = 1" "0 \<in> must total_pattern_3"
  by (simp_all add: total_pattern_0_def total_pattern_1_def total_pattern_2_def
      total_pattern_3_def cat_def currency_def spaces0_def)

lemma total_patterns_shape:
  "pat \<in> set total_patterns \<Longrightarrow> ngroups pat = 1 \<and> 0 \<in> must pat"
  using total_pattern_shapes by (auto simp: total_patterns_def)

lemma total_pattern_groups:
  assumes "ngroups pat = 1" "0 \<in> must pat" "re_search ic pat line = Some gs"
  shows "\<exists>g. gs = [Some g]"
proof -
  from re_search_groups[OF assms(3)] assms(1,2) have "length gs = 1" "gs ! 0 \<noteq> None" by auto
  then show ?thesis by (cases gs) auto
qed

section \<open>When the parse returns\<close>

text \<open>
  A captured group is a piece of the line, so on a line of at most 4300 characters every
  conversion of the total loop succeeds; the parse returns for every text of at most 4300
  characters, and whenever it returns its fields are those of the extraction functions.
\<close>

lemma run_short:
  "run ic ks p s c = Some c' \<Longrightarrow> length s \<le> N \<Longrightarrow>
   (\<forall>i p0 s0. End i p0 s0 \<in> set ks \<longrightarrow> length s0 \<le> N) \<Longrightarrow>
   (\<forall>x. Some x \<in> set c \<longrightarrow> length x \<le> N) \<Longrightarrow>
   (\<forall>x. Some x \<in> set c' \<longrightarrow> length x \<le> N)"
proof (induction ic ks p s c rule: run.induct)
  case (2 ic i p0 s0 ks p s c)
  from "2.prems"(3) have "length s0 \<le> N" by simp
  then have "length (take (p - p0) s0) \<le> N" by simp
  moreover have "set (c[i := Some (take (p - p0) s0)]) \<subseteq> insert (Some (take (p - p0) s0)) (set c)"
    by (rule set_update_subset_insert)
  ultimately have "\<forall>x. Some x \<in> set (c[i := Some (take (p - p0) s0)]) \<longrightarrow> length x \<le> N"
    using "2.prems"(4) by auto
  with "2.IH" "2.prems" show ?case by simp
next
  case (7 ic r1 r2 ks p s c)
  then show ?case by (auto split: option.splits)
next
  case (8 ic r ks p s c)
  then show ?case by (auto split: option.splits)
next
  case (13 ic a lo hi ks p x xs c)
  then show ?case by (auto split: option.splits if_splits)
next
  case (14 ic a lo hi ks p x xs c)
  then show ?case by (auto split: option.splits if_splits)
qed (auto split: if_splits)

lemma search_from_short:
  "search_from ic r p s = Some c \<Longrightarrow> length s \<le> N \<Longrightarrow> \<forall>x. Some x \<in> set c \<longrightarrow> length x \<le> N"
proof (induction s arbitrary: p)
  case Nil
  then show ?case using run_short[of ic "[R r]" p "[]" "replicate (ngroups r) None" c N]
    by simp
next
  case (Cons a s)
  show ?case
  proof (cases "run ic [R r] p (a # s) (replicate (ngroups r) None)")
    case None
    with Cons show ?thesis by simp
  next
    case (Some y)
    with Cons.prems have "run ic [R r] p (a # s) (replicate (ngroups r) None) = Some c" by simp
    from run_short[OF this Cons.prems(2)] show ?thesis by simp
  qed
qed

lemma re_search_short:
  "re_search ic r line = Some c \<Longrightarrow> Some g \<in> set c \<Longrightarrow> length g \<le> length line"
  using search_from_short[of ic r 0 line c "length line"] by (simp add: re_search_def)

lemma py_int_digits_only:
  "digits_only g \<noteq> [] \<Longrightarrow> length g \<le> 4300 \<Longrightarrow> \<exists>n. py_int (digits_only g) = Some n"
proof -
  assume a: "digits_only g \<noteq> []" "length g \<le> 4300"
  have "length (digits_only g) \<le> length g" by (simp add: digits_only_def)
  with a(2) have "int (length (digits_only g)) \<le> 4300" by simp
  with a(1) show ?thesis
    by (simp add: py_int_def digits_only_def list_all_iff int_max_str_digits_def)
qed

lemma total_of_line_ok:
  "\<forall>pat\<in>set pats. ngroups pat = 1 \<and> 0 \<in> must pat \<Longrightarrow> length line \<le> 4300 \<Longrightarrow>
   \<exists>t'. total_of_line pats line t = Inr t'"
proof (induction pats)
  case Nil
  then show ?case by simp
next
  case (Cons pat pats)
  show ?case
  proof (cases "re_search True pat line")
    case None
    with Cons show ?thesis by simp
  next
    case (Some gs)
    with Cons.prems total_pattern_groups[of pat True line gs] obtain g where gs: "gs = [Some g]"
      by auto
    with Some re_search_short[of True pat line gs g] Cons.prems(2) have g: "length g \<le> 4300"
      by simp
    show ?thesis
    proof (cases "digits_only g \<noteq> [] \<and> length (digits_only g) \<ge> 3")
      case True
      with py_int_digits_only[of g] g Some gs show ?thesis by auto
    next
      case False
      with Cons Some gs show ?thesis by (auto simp: Let_def)
    qed
  qed
qed

lemma extract_total_ok:
  "\<forall>line\<in>set lines. length line \<le> 4300 \<Longrightarrow> \<exists>t'. extract_total lines t = Inr t'"
proof (induction lines arbitrary: t)
  case Nil
  then show ?case by simp
next
  case (Cons line lines)
  from total_of_line_ok[of total_patterns line t] total_patterns_shape Cons.prems
  obtain t1 where "total_of_line total_patterns line t = Inr t1" by auto
  with Cons.IH[of t1] Cons.prems show ?case by auto
qed

lemma split_on_short: "piece \<in> set (split_on sep s) \<Longrightarrow> length piece \<le> length s"
proof (induction s arbitrary: piece)
  case Nil
  then show ?case by simp
next
  case (Cons x xs)
  then show ?case by (fastforce split: if_splits list.splits)
qed

lemma strip_short: "length (strip s) \<le> length s"
proof -
  have "length (dropWhile is_space (rev (dropWhile is_space s))) \<le> length (rev (dropWhile is_space s))"
    by (rule length_dropWhile_le)
  also have "\<dots> \<le> length s" by (simp add: length_dropWhile_le)
  finally show ?thesis by (simp add: strip_def)
qed

lemma split_lines_short: "line \<in> set (split_lines raw) \<Longrightarrow> length line \<le> length raw"
  using split_on_short strip_short by (fastforce simp: split_lines_def intro: order_trans)

lemma smart_parse_receipt_cases:
  "smart_parse_receipt today raw =
     (case extract_total (split_lines raw) 0 of
        Inl e \<Rightarrow> Inl e
      | Inr t \<Rightarrow>
          Inr \<lparr>merchantName = extract_merchant (take 5 (split_lines raw)),
               date = extract_date (split_lines raw) today,
               items = (if extract_items_smart (split_lines raw) = [] then [placeholder]
                        else extract_items_smart (split_lines raw)),
               total = t,
               confidence = calculate_confidence
                 \<lparr>merchantName = extract_merchant (take 5 (split_lines raw)),
                  date = extract_date (split_lines raw) today,
                  items = (if extract_items_smart (split_lines raw) = [] then [placeholder]
                           else extract_items_smart (split_lines raw)),
                  total = t, confidence = 0, raw_text = raw\<rparr> raw,
               raw_text = raw\<rparr>)"
  by (simp add: smart_parse_receipt_def Let_def split: sum.splits)

lemma parse_date:
  "map_sum id date (smart_parse_receipt today raw) =
     map_sum id (\<lambda>t. extract_date (split_lines raw) today) (extract_total (split_lines raw) 0)"
  by (simp add: smart_parse_receipt_cases split: sum.splits)

lemma parse_items:
  "map_sum id items (smart_parse_receipt today raw) =
     map_sum id (\<lambda>t. if extract_items_smart (split_lines raw) = [] then [placeholder]
                     else extract_items_smart (split_lines raw))
       (extract_total (split_lines raw) 0)"
  by (simp add: smart_parse_receipt_cases split: sum.splits)

lemma parse_total:
  "map_sum id total (smart_parse_receipt today raw) = extract_total (split_lines raw) 0"
  by (simp add: smart_parse_receipt_cases split: sum.splits)

lemma parse_returns:
  "length raw \<le> 4300 \<Longrightarrow> \<exists>pd. smart_parse_receipt today raw = Inr pd"
proof -
  assume "length raw \<le> 4300"
  with split_lines_short[of _ raw] have "\<forall>line\<in>set (split_lines raw). length line \<le> 4300"
    by fastforce
  from extract_total_ok[OF this, of 0] show ?thesis
    by (auto simp: smart_parse_receipt_cases)
qed

lemma digit_val_range: "is_digit c \<Longrightarrow> 0 \<le> digit_val c \<and> digit_val c \<le> 9"
  by (auto simp: is_digit_def digit_val_def)

lemma foldl_digits_nonneg:
  "0 \<le> acc \<Longrightarrow> list_all is_digit s \<Longrightarrow> 0 \<le> foldl (\<lambda>acc c. 10 * acc + digit_val c) acc s"
proof (induction s arbitrary: acc)
  case Nil
  then show ?case by simp
next
  case (Cons c s)
  from Cons.prems digit_val_range[of c] have "0 \<le> 10 * acc + digit_val c" by simp
  with Cons show ?case by simp
qed

lemma py_int_nonneg: "py_int s = Some n \<Longrightarrow> 0 \<le> n"
  using foldl_digits_nonneg[of 0 s] by (auto simp: py_int_def split: if_splits)

lemma items_of_line_patterns:
  "items_of_line item_patterns line =
     items_of_line [item_pattern_1, item_pattern_2, item_pattern_3, item_pattern_4] line"
  by (simp add: item_patterns_def)

section \<open>Items list and confidence\<close>

text \<open>
  C1. For every input text, the items field of the parsed receipt that
  \<^verbatim>\<open>smart_parse_receipt\<close> returns is not empty; when no line yields an accepted item, it
  holds exactly one placeholder item with empty name, quantity 1 and price 0. The parse
  returns a receipt for every text of at most 4300 characters (the only exception that can
  leave it is the \<^verbatim>\<open>ValueError\<close> of \<^verbatim>\<open>int()\<close> on a total of more than 4300 digits).
\<close>

theorem items_never_empty:
  "(smart_parse_receipt today raw = Inr pd \<longrightarrow>
      items pd \<noteq> [] \<and>
      (extract_items_smart (split_lines raw) = [] \<longrightarrow>
         items pd = [\<lparr>name = [], quantity = 1, price = 0\<rparr>])) \<and>
   (length raw \<le> 4300 \<longrightarrow> (\<exists>pd'. smart_parse_receipt today raw = Inr pd'))"
  using parse_returns[of raw today]
  by (auto simp: smart_parse_receipt_cases placeholder_def split: sum.splits)

theorem items_never_empty_witness:
  "length ''Terima kasih'' \<le> 4300 \<and>
   extract_items_smart (split_lines ''Terima kasih'') = [] \<and>
   (\<exists>pd. smart_parse_receipt ''2026-11-04'' ''Terima kasih'' = Inr pd \<and>
         items pd = [\<lparr>name = [], quantity = 1, price = 0\<rparr>])"
proof -
  have h: "extract_items_smart (split_lines ''Terima kasih'') = []"
    by code_simp
  have l: "length ''Terima kasih'' \<le> 4300" by simp
  from l items_never_empty[of "''2026-11-04''" "''Terima kasih''"]
  obtain pd where pd: "smart_parse_receipt ''2026-11-04'' ''Terima kasih'' = Inr pd" by blast
  with h items_never_empty[of "''2026-11-04''" "''Terima kasih''" pd]
  have "items pd = [\<lparr>name = [], quantity = 1, price = 0\<rparr>]" by blast
  with pd h l show ?thesis by blast
qed

lemma score_table:
  "(let score = (0::rat);
        score = (if m then fadd score (round_double (25 / 100)) else score);
        score = (if t then fadd score (round_double (35 / 100)) else score);
        score = (if i then fadd score (round_double (25 / 100)) else score);
        score = (if r then fadd score (round_double (15 / 100)) else score)
    in py_min score 1) =
   round_double ((if m then 25 / 100 else 0) + (if t then 35 / 100 else 0) +
                 (if i then 25 / 100 else 0) + (if r then 15 / 100 else 0))"
  by (cases m; cases t; cases i; cases r; simp only: if_True if_False; code_simp)

lemma score_range:
  "0 \<le> round_double ((if m then 25 / 100 else 0) + (if t then 35 / 100 else 0) +
                 (if i then 25 / 100 else 0) + (if r then 15 / 100 else 0)) \<and>
   round_double ((if m then 25 / 100 else 0) + (if t then 35 / 100 else 0) +
                 (if i then 25 / 100 else 0) + (if r then 15 / 100 else 0)) \<le> 1"
  by (cases m; cases t; cases i; cases r; simp only: if_True if_False; code_simp)

lemma score_full: "round_double (25 / 100 + 35 / 100 + 25 / 100 + 15 / 100) = 1"
  by code_simp

lemma any_named: "(xs \<noteq> [] \<and> list_ex P xs) \<longleftrightarrow> list_ex P xs"
  by (cases xs) auto

text \<open>
  C2. \<^verbatim>\<open>calculate_confidence\<close> returns the sum of 0.25 (merchant name not empty), 0.35
  (total positive), 0.25 (some item has a name) and 0.15 (raw text longer than 50
  characters), capped at 1.0: the result is the double nearest to the exact sum of the
  weights that apply, it lies between 0 and 1, and it is exactly 1.0 when all four tests hold.
\<close>

theorem confidence_weighted_sum:
  fixes pd :: parsed_data and raw :: string
  defines "s \<equiv> (if merchantName pd \<noteq> [] then 25 / 100 else 0) +
                 (if total pd > 0 then 35 / 100 else 0) +
                 (if list_ex (\<lambda>it. name it \<noteq> []) (items pd) then 25 / 100 else 0) +
                 (if length raw > 50 then 15 / 100 else (0::rat))"
  shows "calculate_confidence pd raw = min (round_double s) 1 \<and>
         0 \<le> calculate_confidence pd raw \<and> calculate_confidence pd raw \<le> 1 \<and>
         (merchantName pd \<noteq> [] \<and> total pd > 0 \<and> list_ex (\<lambda>it. name it \<noteq> []) (items pd) \<and>
          length raw > 50 \<longrightarrow> calculate_confidence pd raw = 1)"
proof -
  have c: "calculate_confidence pd raw = round_double s"
    unfolding calculate_confidence_def any_named s_def by (rule score_table)
  have r: "0 \<le> round_double s \<and> round_double s \<le> 1"
    unfolding s_def by (rule score_range)
  have f: "merchantName pd \<noteq> [] \<and> total pd > 0 \<and> list_ex (\<lambda>it. name it \<noteq> []) (items pd) \<and>
          length raw > 50 \<longrightarrow> round_double s = 1"
    unfolding s_def using score_full by simp
  from c r f show ?thesis by simp
qed

theorem confidence_weighted_sum_witness:
  "(merchantName \<lparr>merchantName = ''Toko Maju Jaya'', date = ''2024-02-01'',
        items = [\<lparr>name = ''Kopi'', quantity = 2, price = 15000\<rparr>], total = 30000,
        confidence = 0, raw_text = replicate 51 CHR ''a''\<rparr> \<noteq> [] \<and>
    (0::int) < 30000 \<and>
    list_ex (\<lambda>it. name it \<noteq> []) [\<lparr>name = ''Kopi'', quantity = 2, price = 15000\<rparr>] \<and>
    length (replicate 51 CHR ''a'') > 50) \<and>
   calculate_confidence \<lparr>merchantName = ''Toko Maju Jaya'', date = ''2024-02-01'',
        items = [\<lparr>name = ''Kopi'', quantity = 2, price = 15000\<rparr>], total = 30000,
        confidence = 0, raw_text = replicate 51 CHR ''a''\<rparr> (replicate 51 CHR ''a'') = 1"
  using confidence_weighted_sum[of "\<lparr>merchantName = ''Toko Maju Jaya'', date = ''2024-02-01'',
        items = [\<lparr>name = ''Kopi'', quantity = 2, price = 15000\<rparr>], total = 30000,
        confidence = 0, raw_text = replicate 51 CHR ''a''\<rparr>" "replicate 51 CHR ''a''"]
  by simp

section \<open>Date extraction\<close>

lemma enumerate_date_patterns:
  "enumerate 0 date_patterns =
     [(0, date_pattern_0), (Suc 0, date_pattern_1), (Suc (Suc 0), date_pattern_2)]"
  by (simp add: date_patterns_def)

lemma extract_date_snoc:
  "extract_date (pre @ [line]) d0 =
     date_of_line (enumerate 0 date_patterns) line (extract_date pre d0)"
  by (simp add: extract_date_def)

lemma date_of_line_day_first:
  "re_search True date_pattern_0 line = Some [Some day, Some month, Some year] \<Longrightarrow>
   date_of_line (enumerate 0 date_patterns) line d =
     (if length year = 2 then ''20'' @ year else year) @ ''-'' @ zfill2 month @ ''-'' @ zfill2 day"
  by (simp add: enumerate_date_patterns)

lemma date_of_line_year_first:
  "re_search True date_pattern_0 line = None \<Longrightarrow>
   re_search True date_pattern_1 line = Some [Some year, Some month, Some day] \<Longrightarrow>
   date_of_line (enumerate 0 date_patterns) line d =
     year @ ''-'' @ zfill2 month @ ''-'' @ zfill2 day"
  by (simp add: enumerate_date_patterns)

text \<open>
  C3. The claim: the first date match wins, and no date match on a later line changes the
  result. The date loop breaks out of the pattern loop only, so a later line that matches
  overwrites the date: with the lines \<^verbatim>\<open>01/02/2024\<close> and \<^verbatim>\<open>03/04/2025\<close> the parse
  returns the date of the second line.
\<close>

theorem date_later_line_overrides:
  "map_sum id date (smart_parse_receipt ''2026-11-04'' ''01/02/2024\<newline>03/04/2025'')
     = Inr ''2025-04-03''"
  unfolding parse_date by code_simp

text \<open>
  C4. The claim: every date match with a two-digit year group gets the prefix 20, and the
  line \<^verbatim>\<open>24/5/9\<close> gives 2009-05-24. The line \<^verbatim>\<open>24/5/9\<close> does not match the day-first
  pattern (its last group has one digit); the year-first pattern reads it and the result is
  \<^verbatim>\<open>24-05-09\<close>.
\<close>

theorem two_digit_year_counterexample:
  "re_search True date_pattern_0 ''24/5/9'' = None \<and>
   map_sum id date (smart_parse_receipt ''2026-11-04'' ''24/5/9'') = Inr ''24-05-09'' \<and>
   ''24-05-09'' \<noteq> ''2009-05-24''"
  unfolding parse_date by code_simp

text \<open>
  C4, amended. For every match of the day-first pattern whose year group has two digits,
  the year gets the prefix 20 and month and day are padded to two digits; the line
  \<^verbatim>\<open>12/05/2024\<close> gives 2024-05-12 and the line \<^verbatim>\<open>24/5/09\<close> gives 2009-05-24.
\<close>

theorem day_first_two_digit_year:
  "(re_search True date_pattern_0 line = Some [Some day, Some month, Some year] \<and>
      length year = 2 \<longrightarrow>
    date_of_line (enumerate 0 date_patterns) line d =
      ''20'' @ year @ ''-'' @ zfill2 month @ ''-'' @ zfill2 day) \<and>
   map_sum id date (smart_parse_receipt today ''12/05/2024'') = Inr ''2024-05-12'' \<and>
   map_sum id date (smart_parse_receipt today ''24/5/09'') = Inr ''2009-05-24''"
proof (intro conjI impI)
  assume "re_search True date_pattern_0 line = Some [Some day, Some month, Some year] \<and>
      length year = 2"
  then show "date_of_line (enumerate 0 date_patterns) line d =
      ''20'' @ year @ ''-'' @ zfill2 month @ ''-'' @ zfill2 day"
    using date_of_line_day_first[of line day month year d] by simp
next
  show "map_sum id date (smart_parse_receipt today ''12/05/2024'') = Inr ''2024-05-12''"
    unfolding parse_date by code_simp
next
  show "map_sum id date (smart_parse_receipt today ''24/5/09'') = Inr ''2009-05-24''"
    unfolding parse_date by code_simp
qed

theorem day_first_two_digit_year_witness:
  "(re_search True date_pattern_0 ''24/5/09'' = Some [Some ''24'', Some ''5'', Some ''09''] \<and>
      length ''09'' = 2) \<and>
   date_of_line (enumerate 0 date_patterns) ''24/5/09'' ''2026-11-04'' = ''2009-05-24''"
proof -
  have h: "re_search True date_pattern_0 ''24/5/09'' = Some [Some ''24'', Some ''5'', Some ''09'']"
    by code_simp
  from h day_first_two_digit_year[of "''24/5/09''" "''24''" "''5''" "''09''" "''2026-11-04''"]
  show ?thesis by simp
qed

text \<open>
  C5. The claim: a line matching the third date pattern (day, month abbreviation, year)
  sets the date. The pattern matches \<^verbatim>\<open>12 Jan 2024\<close>, but the loop body has no branch for
  it: the date keeps its default, the current date.
\<close>

theorem month_name_date_ignored:
  "re_search True date_pattern_0 ''12 Jan 2024'' = None \<and>
   re_search True date_pattern_1 ''12 Jan 2024'' = None \<and>
   re_search True date_pattern_2 ''12 Jan 2024'' = Some [Some ''12'', Some ''Jan'', Some ''2024''] \<and>
   map_sum id date (smart_parse_receipt ''2026-11-04'' ''12 Jan 2024'') = Inr ''2026-11-04''"
  unfolding parse_date by code_simp

lemma date_of_line_no_match:
  "\<forall>pat\<in>set date_patterns. re_search True pat l = None \<Longrightarrow>
   date_of_line (enumerate 0 date_patterns) l d = d"
  by (simp add: enumerate_date_patterns date_patterns_def)

lemma extract_date_no_match:
  "\<forall>l\<in>set ls. \<forall>pat\<in>set date_patterns. re_search True pat l = None \<Longrightarrow> extract_date ls d = d"
  by (induction ls arbitrary: d) (simp_all add: extract_date_def date_of_line_no_match)

lemma extract_date_only_line:
  assumes "\<forall>l\<in>set (pre @ post). \<forall>pat\<in>set date_patterns. re_search True pat l = None"
  shows "extract_date (pre @ line # post) d0 = date_of_line (enumerate 0 date_patterns) line d0"
proof -
  from assms have pre: "\<forall>l\<in>set pre. \<forall>pat\<in>set date_patterns. re_search True pat l = None"
    and post: "\<forall>l\<in>set post. \<forall>pat\<in>set date_patterns. re_search True pat l = None"
    by simp_all
  have "extract_date (pre @ line # post) d0 =
          extract_date post (date_of_line (enumerate 0 date_patterns) line (extract_date pre d0))"
    by (simp add: extract_date_def)
  also have "\<dots> = date_of_line (enumerate 0 date_patterns) line (extract_date pre d0)"
    by (rule extract_date_no_match[OF post])
  also have "extract_date pre d0 = d0" by (rule extract_date_no_match[OF pre])
  finally show ?thesis .
qed

lemma parse_date_Inr:
  "smart_parse_receipt today raw = Inr pd \<Longrightarrow> date pd = extract_date (split_lines raw) today"
  by (auto simp: smart_parse_receipt_cases split: sum.splits)

text \<open>
  C10. The claim: the numeric date patterns validate no calendar range, the date is put
  together purely by zero-padding and rearranging the captured digit groups, and a text
  containing the line \<^verbatim>\<open>99/99/2024\<close> gives the date 2024-99-99. A later line that matches
  a date pattern replaces the date, so the text with the lines \<^verbatim>\<open>99/99/2024\<close> and
  \<^verbatim>\<open>01/02/2025\<close> gives 2025-02-01; and a two-digit year of the day-first pattern gets the
  prefix 20, so the line \<^verbatim>\<open>99/99/24\<close> gives 2024-99-99, which holds more than the padded
  groups.
\<close>

theorem numeric_date_counterexample:
  "''99/99/2024'' \<in> set (split_lines ''99/99/2024\<newline>01/02/2025'') \<and>
   map_sum id date (smart_parse_receipt ''2026-11-04'' ''99/99/2024\<newline>01/02/2025'')
     = Inr ''2025-02-01'' \<and>
   re_search True date_pattern_0 ''99/99/24'' = Some [Some ''99'', Some ''99'', Some ''24''] \<and>
   map_sum id date (smart_parse_receipt ''2026-11-04'' ''99/99/24'') = Inr ''2024-99-99'' \<and>
   ''2024-99-99'' \<noteq> ''24'' @ ''-'' @ zfill2 ''99'' @ ''-'' @ zfill2 ''99''"
  unfolding parse_date by code_simp

text \<open>
  C10, amended. The numeric date patterns validate no calendar range. When exactly one
  line of a text matches a date pattern and the parse returns, the date is put together
  from the digit groups captured on that line, whatever their values: for the day-first
  pattern the year (with the prefix 20 when it has two digits), the month and the day, for
  the year-first pattern (when the day-first pattern does not match) the year as captured,
  the month and the day, with month and day padded with zeros to two digits. A text whose
  only line is \<^verbatim>\<open>99/99/2024\<close> gives the date 2024-99-99.
\<close>

theorem numeric_date_not_validated:
  "(split_lines raw = pre @ line # post \<and>
    (\<forall>l\<in>set (pre @ post). \<forall>pat\<in>set date_patterns. re_search True pat l = None) \<and>
    smart_parse_receipt today raw = Inr pd \<longrightarrow>
      (re_search True date_pattern_0 line = Some [Some day, Some month, Some year] \<longrightarrow>
         date pd = (if length year = 2 then ''20'' @ year else year) @ ''-'' @ zfill2 month
                   @ ''-'' @ zfill2 day) \<and>
      (re_search True date_pattern_0 line = None \<and>
       re_search True date_pattern_1 line = Some [Some year, Some month, Some day] \<longrightarrow>
         date pd = year @ ''-'' @ zfill2 month @ ''-'' @ zfill2 day)) \<and>
   map_sum id date (smart_parse_receipt today ''99/99/2024'') = Inr ''2024-99-99''"
proof (intro conjI impI)
  assume a: "split_lines raw = pre @ line # post \<and>
    (\<forall>l\<in>set (pre @ post). \<forall>pat\<in>set date_patterns. re_search True pat l = None) \<and>
    smart_parse_receipt today raw = Inr pd"
  then have d: "date pd = date_of_line (enumerate 0 date_patterns) line today"
    using parse_date_Inr[of today raw pd] extract_date_only_line[of pre post line today]
    by simp
  {
    assume "re_search True date_pattern_0 line = Some [Some day, Some month, Some year]"
    from date_of_line_day_first[OF this, of today] d
    show "date pd = (if length year = 2 then ''20'' @ year else year) @ ''-'' @ zfill2 month
                   @ ''-'' @ zfill2 day"
      by simp
  }
  {
    assume "re_search True date_pattern_0 line = None \<and>
       re_search True date_pattern_1 line = Some [Some year, Some month, Some day]"
    then show "date pd = year @ ''-'' @ zfill2 month @ ''-'' @ zfill2 day"
      using date_of_line_year_first[of line year month day today] d by simp
  }
next
  show "map_sum id date (smart_parse_receipt today ''99/99/2024'') = Inr ''2024-99-99''"
    unfolding parse_date by code_simp
qed

theorem numeric_date_not_validated_witness:
  "(split_lines ''Toko Maju\<newline>9/9/24\<newline>Terima kasih'' =
      [''Toko Maju''] @ ''9/9/24'' # [''Terima kasih''] \<and>
    list_all (\<lambda>l. list_all (\<lambda>pat. re_search True pat l = None) date_patterns)
      ([''Toko Maju''] @ [''Terima kasih'']) \<and>
    re_search True date_pattern_0 ''9/9/24'' = Some [Some ''9'', Some ''9'', Some ''24'']) \<and>
   map_sum id date (smart_parse_receipt ''2026-11-04'' ''Toko Maju\<newline>9/9/24\<newline>Terima kasih'')
     = Inr ''2024-09-09'' \<and>
   (split_lines ''2024/9/9'' = [] @ ''2024/9/9'' # [] \<and>
    re_search True date_pattern_0 ''2024/9/9'' = None \<and>
    re_search True date_pattern_1 ''2024/9/9'' = Some [Some ''2024'', Some ''9'', Some ''9'']) \<and>
   map_sum id date (smart_parse_receipt ''2026-11-04'' ''2024/9/9'') = Inr ''2024-09-09''"
proof -
  have l1: "split_lines ''Toko Maju\<newline>9/9/24\<newline>Terima kasih'' =
      [''Toko Maju''] @ ''9/9/24'' # [''Terima kasih'']"
    by code_simp
  have k1: "list_all (\<lambda>l. list_all (\<lambda>pat. re_search True pat l = None) date_patterns)
      ([''Toko Maju''] @ [''Terima kasih''])"
    by code_simp
  then have n1: "\<forall>l\<in>set ([''Toko Maju''] @ [''Terima kasih'']).
       \<forall>pat\<in>set date_patterns. re_search True pat l = None"
    by (simp only: list_all_iff)
  have m1: "re_search True date_pattern_0 ''9/9/24'' = Some [Some ''9'', Some ''9'', Some ''24'']"
    by code_simp
  have l2: "split_lines ''2024/9/9'' = [] @ ''2024/9/9'' # []"
    by code_simp
  have m2: "re_search True date_pattern_0 ''2024/9/9'' = None \<and>
    re_search True date_pattern_1 ''2024/9/9'' = Some [Some ''2024'', Some ''9'', Some ''9'']"
    by code_simp
  obtain pd1 where p1:
    "smart_parse_receipt ''2026-11-04'' ''Toko Maju\<newline>9/9/24\<newline>Terima kasih'' = Inr pd1"
    using parse_returns[of "''Toko Maju\<newline>9/9/24\<newline>Terima kasih''" "''2026-11-04''"] by auto
  obtain pd2 where p2: "smart_parse_receipt ''2026-11-04'' ''2024/9/9'' = Inr pd2"
    using parse_returns[of "''2024/9/9''" "''2026-11-04''"] by auto
  from l1 n1 m1 p1
    numeric_date_not_validated[of "''Toko Maju\<newline>9/9/24\<newline>Terima kasih''" "[''Toko Maju'']"
      "''9/9/24''" "[''Terima kasih'']" "''2026-11-04''" pd1 "''9''" "''9''" "''24''"]
  have d1: "date pd1 = ''2024-09-09''" by simp
  from l2 m2 p2
    numeric_date_not_validated[of "''2024/9/9''" "[]" "''2024/9/9''" "[]" "''2026-11-04''" pd2
      "''9''" "''9''" "''2024''"]
  have d2: "date pd2 = ''2024-09-09''" by simp
  from l1 k1 m1 l2 m2 p1 p2 d1 d2 show ?thesis by simp
qed

section \<open>The tolerance test in double precision\<close>

text \<open>
  The test \<^verbatim>\<open>abs(quantity * unit_price - total_price) <= total_price * 0.15\<close> compares
  an integer with a double. Below, the rounding function is shown to stay within half a unit
  in the last place, and for line totals below \<open>2\<^sup>5\<^sup>1\<close> the comparison is shown to agree
  with the exact comparison against 15 percent of the line total.
\<close>

lemma pow2n_eq: "0 \<le> e \<Longrightarrow> pow2n e = 2 ^ nat e"
proof (induction e rule: pow2n.induct)
  case (1 e)
  show ?case
  proof (cases "e \<le> 0")
    case True
    with "1.prems" have "e = 0" by simp
    then show ?thesis by (simp add: pow2n.simps)
  next
    case False
    then have h: "pow2n (e div 2) = 2 ^ nat (e div 2)" using "1.IH" by simp
    have hh: "(2::int) ^ nat (e div 2) * 2 ^ nat (e div 2) = 2 ^ nat (2 * (e div 2))"
      using False by (simp add: nat_mult_distrib flip: power_add mult_2)
    show ?thesis
    proof (cases "even e")
      case True
      then have "2 * (e div 2) = e" by simp
      with False True h hh show ?thesis by (simp add: pow2n.simps[of e] Let_def)
    next
      case odd: False
      then have e: "e = 2 * (e div 2) + 1" by simp
      have "nat e = Suc (nat (2 * (e div 2)))" using False by (subst e) (simp add: nat_add_distrib)
      with False odd h hh show ?thesis by (simp add: pow2n.simps[of e] Let_def)
    qed
  qed
qed

lemma pow2_powi: "pow2 e = power_int 2 e"
proof (cases "0 \<le> e")
  case True
  then have "pow2 e = of_int (2 ^ nat e)" by (simp only: pow2_def pow2n_eq if_True)
  also have "\<dots> = power_int 2 e" using True by (simp add: power_int_def)
  finally show ?thesis .
next
  case False
  then have "0 \<le> - e" by simp
  from pow2n_eq[OF this] False have "pow2 e = 1 / of_int (2 ^ nat (- e))"
    by (simp only: pow2_def if_False)
  also have "\<dots> = 1 / 2 ^ nat (- e)" by simp
  also have "\<dots> = power_int 2 e" using False by (simp only: power_int_def if_False power_one_over inverse_eq_divide)
  finally show ?thesis .
qed

lemma bit_len_bounds:
  "0 < n \<Longrightarrow> 1 \<le> bit_len n \<and> 2 ^ nat (bit_len n - 1) \<le> n \<and> n < 2 ^ nat (bit_len n)"
proof (induction n rule: bit_len.induct)
  case (1 n)
  show ?case
  proof (cases "n div 2 = 0")
    case True
    with "1.prems" have "n = 1" by presburger
    then show ?thesis by (simp add: bit_len.simps[of 1] bit_len.simps[of 0])
  next
    case False
    with "1.prems" have m: "0 < n div 2" by presburger
    with "1.IH" "1.prems" have ih: "1 \<le> bit_len (n div 2)"
      "2 ^ nat (bit_len (n div 2) - 1) \<le> n div 2" "n div 2 < 2 ^ nat (bit_len (n div 2))"
      by simp_all
    have b: "bit_len n = 1 + bit_len (n div 2)" using "1.prems" by (simp add: bit_len.simps[of n])
    have n1: "nat (bit_len n - 1) = Suc (nat (bit_len (n div 2) - 1))" using b ih(1) by simp
    have n2: "nat (bit_len n) = Suc (nat (bit_len (n div 2)))" using b ih(1) by simp
    have "2 * (n div 2) \<le> n" "n \<le> 2 * (n div 2) + 1" by presburger+
    with ih show ?thesis unfolding n1 n2 using b by simp
  qed
qed

lemma bit_len_powi:
  assumes "0 < n"
  shows "power_int 2 (bit_len n - 1) \<le> (of_int n :: rat)" "(of_int n :: rat) < power_int 2 (bit_len n)"
proof -
  from bit_len_bounds[OF assms]
  have b: "1 \<le> bit_len n" "2 ^ nat (bit_len n - 1) \<le> n" "n < 2 ^ nat (bit_len n)" by simp_all
  have "(of_int (2 ^ nat (bit_len n - 1)) :: rat) \<le> of_int n" using b(2) by (simp only: of_int_le_iff)
  then show "power_int 2 (bit_len n - 1) \<le> (of_int n :: rat)"
    using b(1) by (simp add: power_int_def)
  have "(of_int n :: rat) < of_int (2 ^ nat (bit_len n))" using b(3) by (simp only: of_int_less_iff)
  then show "(of_int n :: rat) < power_int 2 (bit_len n)"
    using b(1) by (simp add: power_int_def)
qed

lemma round_half_even_bounds:
  "of_int (round_half_even z) \<le> z + 1 / 2" "z - 1 / 2 \<le> of_int (round_half_even z)"
proof -
  define f where "f = \<lfloor>z\<rfloor>"
  have f: "of_int f \<le> z" "z < of_int f + 1" unfolding f_def by linarith+
  have r: "round_half_even z =
      (if z - of_int f < 1 / 2 then f else if 1 / 2 < z - of_int f then f + 1
       else if even f then f else f + 1)"
    by (simp add: round_half_even_def Let_def f_def)
  show "of_int (round_half_even z) \<le> z + 1 / 2"
    unfolding r using f by (auto split: if_splits)
  show "z - 1 / 2 \<le> of_int (round_half_even z)"
    unfolding r using f by (auto split: if_splits)
qed

lemma round_half_even_of_int: "round_half_even (of_int n) = n"
  by (simp add: round_half_even_def Let_def)

lemma ilog2_bounds:
  assumes "0 < x"
  shows "power_int 2 (ilog2 x) \<le> x" "x < power_int 2 (ilog2 x + 1)"
proof -
  obtain p q where pq: "quotient_of x = (p, q)" by (cases "quotient_of x")
  then have q: "0 < q" using quotient_of_denom_pos by blast
  from pq have x: "x = of_int p / of_int q" using quotient_of_div by blast
  with assms q have p: "0 < p" by (simp add: zero_less_divide_iff)
  define k where "k = bit_len p - bit_len q"
  note bp = bit_len_powi[OF p] and bq = bit_len_powi[OF q]
  have pos: "\<And>n. (0::rat) < power_int 2 n" by simp
  have "x < power_int 2 (bit_len p) / power_int 2 (bit_len q - 1)"
    unfolding x using frac_less[of "of_int p" "power_int 2 (bit_len p)" "power_int 2 (bit_len q - 1)" "of_int q"]
      p bp bq pos by simp
  also have "\<dots> = power_int 2 (bit_len p - (bit_len q - 1))"
    by (simp add: power_int_diff)
  also have "bit_len p - (bit_len q - 1) = k + 1"
    unfolding k_def by simp
  finally have up: "x < power_int 2 (k + 1)" .
  have "power_int 2 (bit_len p - 1) / power_int 2 (bit_len q) < x"
    unfolding x using frac_less2[of "power_int 2 (bit_len p - 1)" "of_int p" "of_int q" "power_int 2 (bit_len q)"]
      q bp bq pos by simp
  moreover have "power_int 2 (bit_len p - 1) / power_int 2 (bit_len q) =
      (power_int 2 (bit_len p - 1 - bit_len q) :: rat)"
    by (simp add: power_int_diff)
  moreover have "bit_len p - 1 - bit_len q = k - 1"
    unfolding k_def by simp
  ultimately have lo: "power_int 2 (k - 1) < x" by simp
  have il: "ilog2 x = (if power_int 2 k \<le> x then k else k - 1)"
    by (simp add: ilog2_def pq k_def pow2_powi Let_def)
  show "power_int 2 (ilog2 x) \<le> x" using lo by (simp add: il)
  show "x < power_int 2 (ilog2 x + 1)" using up by (auto simp: il)
qed

lemma round_double_pos:
  assumes "0 < y"
  shows "round_double y =
           of_int (round_half_even (y / power_int 2 (ilog2 y - 52))) * power_int 2 (ilog2 y - 52)"
  using assms by (simp add: round_double_def Let_def pow2_powi)

lemma powi_less_exp: "power_int (2::rat) m < power_int 2 n \<Longrightarrow> m < n"
proof (rule ccontr)
  assume a: "power_int (2::rat) m < power_int 2 n" and "\<not> m < n"
  then have "n \<le> m" by simp
  then have "power_int (2::rat) n \<le> power_int 2 m" by (intro power_int_increasing) simp_all
  with a show False by simp
qed

lemma tolerance_value: "tolerance = 5404319552844595 / 36028797018963968"
  unfolding tolerance_def by code_simp

lemma round_double_of_int:
  assumes "0 \<le> t" "t < 2 ^ 53"
  shows "round_double (of_int t) = of_int t"
proof (cases "t = 0")
  case True
  then show ?thesis by (simp add: round_double_def)
next
  case False
  with assms have pos: "(0::rat) < of_int t" by simp
  define e where "e = ilog2 (of_int t) - 52"
  from ilog2_bounds(1)[OF pos] have "power_int 2 (e + 52) \<le> (of_int t :: rat)"
    by (simp add: e_def)
  also have "(of_int t :: rat) < of_int (2 ^ 53)" using assms(2) by (simp only: of_int_less_iff)
  also have "(of_int (2 ^ 53) :: rat) = power_int 2 53" by simp
  finally have "e + 52 < 53" by (rule powi_less_exp)
  then have e: "e \<le> 0" by simp
  have "(of_int t :: rat) / power_int 2 e = of_int t * power_int 2 (- e)"
    by (simp add: power_int_minus field_simps)
  also have "\<dots> = of_int (t * 2 ^ nat (- e))" using e by (simp add: power_int_def)
  finally have "round_half_even (of_int t / power_int 2 e) = t * 2 ^ nat (- e)"
    by (simp only: round_half_even_of_int)
  then have "round_double (of_int t) = of_int (t * 2 ^ nat (- e)) * power_int 2 e"
    using round_double_pos[OF pos] by (simp add: e_def)
  also have "\<dots> = of_int t * (power_int 2 (- e) * power_int 2 e)"
    using e by (simp add: power_int_def)
  also have "power_int 2 (- e) * power_int (2::rat) e = 1"
    by (simp add: power_int_minus)
  finally show ?thesis by simp
qed

lemma int_to_double_exact:
  assumes "0 \<le> t" "t < 2 ^ 53"
  shows "int_to_double t = Inr (of_int t)"
proof (cases "t = 0")
  case True
  then show ?thesis by (simp add: int_to_double_def round_double_def)
next
  case False
  with assms have pos: "(0::rat) < of_int t" by simp
  from ilog2_bounds(1)[OF pos] have "power_int 2 (ilog2 (of_int t)) \<le> (of_int t :: rat)" .
  also have "(of_int t :: rat) < of_int (2 ^ 53)" using assms(2) by (simp only: of_int_less_iff)
  also have "(of_int (2 ^ 53) :: rat) = power_int 2 53" by simp
  finally have "ilog2 (of_int t) < 53" by (rule powi_less_exp)
  with pos show ?thesis
    by (simp add: int_to_double_def round_double_of_int[OF assms] Let_def)
qed

lemma tolerance_exact:
  assumes t: "0 < t" "t < 2 ^ 51" and d: "0 \<le> d"
  shows "of_int d \<le> fmul (of_int t) tolerance \<longleftrightarrow> 20 * d \<le> 3 * t"
proof -
  define y :: rat where "y = of_int t * (5404319552844595 / 36028797018963968)"
  define e where "e = ilog2 y - 52"
  define g :: rat where "g = power_int 2 e"
  have tpos: "(0::rat) < of_int t" using t(1) by simp
  have ypos: "0 < y" unfolding y_def using tpos by simp
  have gpos: "0 < g" unfolding g_def by simp
  have rd: "fmul (of_int t) tolerance = of_int (round_half_even (y / g)) * g"
    unfolding fmul_def tolerance_value y_def[symmetric] g_def e_def
    by (rule round_double_pos[OF ypos])
  have "e + 52 = ilog2 y" by (simp add: e_def)
  then have "power_int 2 (e + 52) \<le> y" using ilog2_bounds(1)[OF ypos] by (simp only:)
  then have b1: "g * 4503599627370496 \<le> y"
    by (simp add: g_def power_int_add)
  have "e + 53 = ilog2 y + 1" by (simp add: e_def)
  then have "y < power_int 2 (e + 53)" using ilog2_bounds(2)[OF ypos] by (simp only:)
  then have b2: "y < g * 9007199254740992"
    by (simp add: g_def power_int_add)
  have "(of_int t :: rat) < of_int (2 ^ 51)" using t(2) by (simp only: of_int_less_iff)
  then have tlt: "(of_int t :: rat) < 2251799813685248" by simp
  have ylt: "y < 562949953421312" unfolding y_def using tlt tpos by simp
  from b1 ylt have "g * 4503599627370496 < 562949953421312" by simp
  then have "g < 1 / 8" by simp
  then have "power_int (2::rat) e < power_int 2 (- 3)" by (simp add: g_def)
  then have "e < - 3" by (rule powi_less_exp)
  then have e: "e \<le> - 4" by simp
  then have "power_int (2::rat) e \<le> power_int 2 (- 4)" by (intro power_int_increasing) simp_all
  then have gle: "g \<le> 1 / 16" by (simp add: g_def)
  define D where "D = d * 2 ^ nat (- e)"
  have "power_int (2::rat) (- e) * power_int 2 e = 1" by (simp add: power_int_minus)
  moreover have "(of_int D :: rat) = of_int d * power_int 2 (- e)"
    using e by (simp add: D_def power_int_def)
  ultimately have Dg: "of_int D * g = (of_int d :: rat)" by (simp add: g_def)
  have key: "of_int d \<le> of_int (round_half_even (y / g)) * g \<longleftrightarrow> D \<le> round_half_even (y / g)"
  proof -
    have "of_int d \<le> of_int (round_half_even (y / g)) * g \<longleftrightarrow>
          (of_int D :: rat) * g \<le> of_int (round_half_even (y / g)) * g"
      by (simp only: Dg)
    also have "\<dots> \<longleftrightarrow> (of_int D :: rat) \<le> of_int (round_half_even (y / g))"
      using gpos by (simp only: mult_le_cancel_right_pos)
    also have "\<dots> \<longleftrightarrow> D \<le> round_half_even (y / g)" by (simp only: of_int_le_iff)
    finally show ?thesis .
  qed
  have yg: "y / g * g = y" using gpos by simp
  show ?thesis
  proof
    assume "of_int d \<le> fmul (of_int t) tolerance"
    then have "D \<le> round_half_even (y / g)" using rd key by simp
    then have "(of_int D :: rat) \<le> of_int (round_half_even (y / g))" by (simp only: of_int_le_iff)
    also have "\<dots> \<le> y / g + 1 / 2" by (rule round_half_even_bounds(1))
    finally have "of_int D * g \<le> (y / g + 1 / 2) * g" using gpos by (simp only: mult_le_cancel_right_pos)
    then have "of_int d \<le> y + g / 2" using Dg yg by (simp add: algebra_simps)
    with gle have "of_int d \<le> y + 1 / 32" by simp
    moreover have "y < of_int t * (3 / 20)" unfolding y_def using tpos by simp
    ultimately have "(of_int d :: rat) * 20 < of_int t * 3 + 1" by simp
    then have "(of_int (20 * d) :: rat) < of_int (3 * t + 1)" by (simp add: algebra_simps)
    then have "20 * d < 3 * t + 1" by (simp only: of_int_less_iff)
    then show "20 * d \<le> 3 * t" by simp
  next
    assume "20 * d \<le> 3 * t"
    then have "(of_int (20 * d) :: rat) \<le> of_int (3 * t)" by (simp only: of_int_le_iff)
    then have dle: "(of_int d :: rat) \<le> of_int t * (3 / 20)" by simp
    have "of_int t * (3 / 20) = y + of_int t * (1 / 180143985094819840)"
      unfolding y_def by (simp add: algebra_simps)
    moreover have "of_int t * (1 / 180143985094819840) < g / 2"
      using b2 tpos unfolding y_def by simp
    ultimately have "of_int d < y + g / 2" using dle by simp
    then have "of_int D * g < (y / g + 1 / 2) * g" using Dg yg by (simp add: algebra_simps)
    then have "(of_int D :: rat) < y / g + 1 / 2" using gpos by (simp only: mult_less_cancel_right_pos)
    moreover have "y / g - 1 / 2 \<le> of_int (round_half_even (y / g))"
      by (rule round_half_even_bounds(2))
    ultimately have "(of_int D :: rat) - 1 < of_int (round_half_even (y / g))" by simp
    then have "(of_int (D - 1) :: rat) < of_int (round_half_even (y / g))" by simp
    then have "D - 1 < round_half_even (y / g)" by (simp only: of_int_less_iff)
    then have "D \<le> round_half_even (y / g)" by simp
    then show "of_int d \<le> fmul (of_int t) tolerance" using rd key by simp
  qed
qed

lemma tolerance_exact0:
  assumes "0 \<le> t" "t < 2 ^ 51" "0 \<le> d"
  shows "of_int d \<le> fmul (of_int t) tolerance \<longleftrightarrow> 20 * d \<le> 3 * t"
proof (cases "t = 0")
  case True
  then show ?thesis by (simp add: fmul_def round_double_def)
next
  case False
  with assms have "0 < t" by simp
  from tolerance_exact[OF this assms(2,3)] show ?thesis .
qed

lemma item_try_grammar1:
  assumes "py_int q = Some qv" "py_int (digits_only u) = Some uv"
    "py_int (digits_only t) = Some tv" "tv < 2 ^ 51"
  shows "item_try [Some n, Some q, Some u, Some t] =
     Broke (if 0 < uv \<and> 20 * \<bar>qv * uv - tv\<bar> \<le> 3 * tv
            then [\<lparr>name = strip n, quantity = qv, price = uv\<rparr>] else [])"
proof -
  from py_int_nonneg[OF assms(3)] have t0: "0 \<le> tv" .
  from assms(4) have "tv < 2 ^ 53" by simp
  from int_to_double_exact[OF t0 this] have c: "int_to_double tv = Inr (of_int tv)" .
  have "of_int \<bar>qv * uv - tv\<bar> \<le> fmul (of_int tv) tolerance \<longleftrightarrow> 20 * \<bar>qv * uv - tv\<bar> \<le> 3 * tv"
    by (rule tolerance_exact0[OF t0 assms(4)]) simp
  with assms(1-3) c show ?thesis by simp
qed

text \<open>
  C7. The claim: a line of grammar 1 is accepted if and only if the unit price is positive
  and the product of quantity and unit price differs from the line total by at most 15
  percent of the line total. The code multiplies the line total by the double nearest to
  0.15 and rounds the product: for the line total 7505999378950833 the product rounds up to
  1125899906842625, past the exact 15 percent (1125899906842624.95), and an item whose
  difference is 1125899906842625 is accepted.
\<close>

theorem grammar1_tolerance_counterexample:
  "re_search True item_pattern_1 ''X 1 8631899285793458 7505999378950833'' =
     Some [Some ''X'', Some ''1'', Some ''8631899285793458'', Some ''7505999378950833''] \<and>
   extract_items_smart (split_lines ''X 1 8631899285793458 7505999378950833'') =
     [\<lparr>name = ''X'', quantity = 1, price = 8631899285793458\<rparr>] \<and>
   \<not> (20 * \<bar>1 * 8631899285793458 - 7505999378950833\<bar> \<le> 3 * (7505999378950833::int))"
  by code_simp

text \<open>
  C7, amended. For every line matching item grammar 1 whose line total is below \<open>2\<^sup>5\<^sup>1\<close>
  (2251799813685248), the parsed item is accepted if and only if the unit price is
  positive and the product of quantity and unit price differs from the line total by at
  most 15 percent of the line total; quantity 2, unit price 1000, line total 2100 is
  accepted and line total 2500 is rejected.
\<close>

theorem grammar1_tolerance:
  "(re_search True item_pattern_1 line = Some [Some n, Some q, Some u, Some t] \<and>
    py_int q = Some qv \<and> py_int (digits_only u) = Some uv \<and>
    py_int (digits_only t) = Some tv \<and> tv < 2 ^ 51 \<longrightarrow>
    items_of_line item_patterns line =
      (if 0 < uv \<and> 20 * \<bar>qv * uv - tv\<bar> \<le> 3 * tv
       then [\<lparr>name = strip n, quantity = qv, price = uv\<rparr>] else [])) \<and>
   items_of_line item_patterns ''Apple 2 1000 2100'' =
     [\<lparr>name = ''Apple'', quantity = 2, price = 1000\<rparr>] \<and>
   items_of_line item_patterns ''Apple 2 1000 2500'' = []"
proof (intro conjI impI)
  assume a: "re_search True item_pattern_1 line = Some [Some n, Some q, Some u, Some t] \<and>
    py_int q = Some qv \<and> py_int (digits_only u) = Some uv \<and>
    py_int (digits_only t) = Some tv \<and> tv < 2 ^ 51"
  then have "item_try [Some n, Some q, Some u, Some t] =
     Broke (if 0 < uv \<and> 20 * \<bar>qv * uv - tv\<bar> \<le> 3 * tv
            then [\<lparr>name = strip n, quantity = qv, price = uv\<rparr>] else [])"
    using item_try_grammar1[of q qv u uv t tv n] by blast
  with a show "items_of_line item_patterns line =
      (if 0 < uv \<and> 20 * \<bar>qv * uv - tv\<bar> \<le> 3 * tv
       then [\<lparr>name = strip n, quantity = qv, price = uv\<rparr>] else [])"
    by (simp add: items_of_line_patterns del: item_try.simps)
next
  show "items_of_line item_patterns ''Apple 2 1000 2100'' =
     [\<lparr>name = ''Apple'', quantity = 2, price = 1000\<rparr>]"
    by code_simp
next
  show "items_of_line item_patterns ''Apple 2 1000 2500'' = []"
    by code_simp
qed

theorem grammar1_tolerance_witness:
  "(re_search True item_pattern_1 ''Apple 2 1000 2100'' =
      Some [Some ''Apple'', Some ''2'', Some ''1000'', Some ''2100''] \<and>
    py_int ''2'' = Some 2 \<and> py_int (digits_only ''1000'') = Some 1000 \<and>
    py_int (digits_only ''2100'') = Some 2100 \<and> (2100::int) < 2 ^ 51) \<and>
   (0 < (1000::int) \<and> 20 * \<bar>2 * 1000 - 2100\<bar> \<le> 3 * (2100::int)) \<and>
   items_of_line item_patterns ''Apple 2 1000 2100'' =
     [\<lparr>name = strip ''Apple'', quantity = 2, price = 1000\<rparr>]"
proof -
  have h: "re_search True item_pattern_1 ''Apple 2 1000 2100'' =
      Some [Some ''Apple'', Some ''2'', Some ''1000'', Some ''2100''] \<and>
    py_int ''2'' = Some 2 \<and> py_int (digits_only ''1000'') = Some 1000 \<and>
    py_int (digits_only ''2100'') = Some 2100"
    by code_simp
  from h grammar1_tolerance[of "''Apple 2 1000 2100''" "''Apple''" "''2''" "''1000''" "''2100''"
      2 1000 2100]
  show ?thesis by simp
qed

section \<open>Line items\<close>

lemma int_to_double_error: "int_to_double t = Inl e \<Longrightarrow> e = OverflowError"
  by (auto simp: int_to_double_def Let_def split: if_splits)

lemma item_pattern_shapes:
  "ngroups item_pattern_1 = 4" "0 \<in> must item_pattern_1" "1 \<in> must item_pattern_1"
  "2 \<in> must item_pattern_1" "3 \<in> must item_pattern_1"
  "ngroups item_pattern_2 = 3" "0 \<in> must item_pattern_2" "1 \<in> must item_pattern_2"
  "2 \<in> must item_pattern_2"
  "ngroups item_pattern_3 = 2" "0 \<in> must item_pattern_3" "1 \<in> must item_pattern_3"
  "ngroups item_pattern_4 = 3" "0 \<in> must item_pattern_4" "1 \<in> must item_pattern_4"
  "2 \<in> must item_pattern_4"
  by (simp_all add: item_pattern_1_def item_pattern_2_def item_pattern_3_def item_pattern_4_def
      cat_def currency_def spaces0_def spaces1_def)

lemma groups_2:
  "length gs = 2 \<Longrightarrow> gs ! 0 \<noteq> None \<Longrightarrow> gs ! 1 \<noteq> None \<Longrightarrow> \<exists>a b. gs = [Some a, Some b]"
  by (cases gs; cases "tl gs") auto

lemma groups_3:
  "length gs = 3 \<Longrightarrow> gs ! 0 \<noteq> None \<Longrightarrow> gs ! 1 \<noteq> None \<Longrightarrow> gs ! 2 \<noteq> None \<Longrightarrow>
   \<exists>a b c. gs = [Some a, Some b, Some c]"
  by (cases gs; cases "tl gs"; cases "tl (tl gs)") auto

lemma groups_4:
  "length gs = 4 \<Longrightarrow> gs ! 0 \<noteq> None \<Longrightarrow> gs ! 1 \<noteq> None \<Longrightarrow> gs ! 2 \<noteq> None \<Longrightarrow>
   gs ! 3 \<noteq> None \<Longrightarrow> \<exists>a b c d. gs = [Some a, Some b, Some c, Some d]"
  by (cases gs; cases "tl gs"; cases "tl (tl gs)"; cases "tl (tl (tl gs))") auto

lemma item_pattern_groups:
  "re_search True item_pattern_1 line = Some gs \<Longrightarrow> \<exists>n q u t. gs = [Some n, Some q, Some u, Some t]"
  "re_search True item_pattern_2 line = Some gs \<Longrightarrow> \<exists>n q p. gs = [Some n, Some q, Some p]"
  "re_search True item_pattern_3 line = Some gs \<Longrightarrow> \<exists>n p. gs = [Some n, Some p]"
  "re_search True item_pattern_4 line = Some gs \<Longrightarrow> \<exists>n q p. gs = [Some n, Some q, Some p]"
proof -
  show "re_search True item_pattern_1 line = Some gs \<Longrightarrow> \<exists>n q u t. gs = [Some n, Some q, Some u, Some t]"
    using re_search_groups[of True item_pattern_1 line gs] item_pattern_shapes
    by (intro groups_4) simp_all
  show "re_search True item_pattern_2 line = Some gs \<Longrightarrow> \<exists>n q p. gs = [Some n, Some q, Some p]"
    using re_search_groups[of True item_pattern_2 line gs] item_pattern_shapes
    by (intro groups_3) simp_all
  show "re_search True item_pattern_3 line = Some gs \<Longrightarrow> \<exists>n p. gs = [Some n, Some p]"
    using re_search_groups[of True item_pattern_3 line gs] item_pattern_shapes
    by (intro groups_2) simp_all
  show "re_search True item_pattern_4 line = Some gs \<Longrightarrow> \<exists>n q p. gs = [Some n, Some q, Some p]"
    using re_search_groups[of True item_pattern_4 line gs] item_pattern_shapes
    by (intro groups_3) simp_all
qed

text \<open>
  C6. The claim: the four line grammars are tried in the order in which the specification
  lists them, so that a line with a parenthesized quantity such as \<^verbatim>\<open>Teh (2) 5000\<close> is
  parsed with quantity 2 and is not taken by the bare name-price grammar. In the code the
  bare name-price grammar is the third pattern and the parenthesized one the fourth: the
  line is taken by the third, with the name \<^verbatim>\<open>Teh (2)\<close> and quantity 1.
\<close>

theorem parenthesized_quantity_counterexample:
  "re_search True item_pattern_4 ''Teh (2) 5000'' = Some [Some ''Teh'', Some ''2'', Some ''5000''] \<and>
   map_sum id items (smart_parse_receipt ''2026-11-04'' ''Teh (2) 5000'') =
     Inr [\<lparr>name = ''Teh (2)'', quantity = 1, price = 5000\<rparr>]"
  unfolding parse_items by code_simp

text \<open>
  C6, amended. The four line grammars are tried per line in the order of the code:
  (1) name, quantity, unit price, line total; (2) name, quantity, x, price; (3) bare name
  and price; (4) parenthesized quantity. A match of a grammar sets all its groups. A grammar passes the line on when it does not
  match, or when it matches and the conversion of a numeric capture raises (\<^verbatim>\<open>int()\<close> of
  a capture without digits or with more than 4300 digits; for grammar 1 also a line total
  too large for a float, when the unit price is positive). The first grammar that matches
  without raising decides the line, and a line that all four pass on yields no item. A
  grammar that decides applies its own rule: grammars 2 and 4 accept the item with the
  captured quantity when price > 0 and quantity > 0; grammar 3 accepts it with quantity 1
  when the price exceeds 1000 and the name is longer than 2; grammar 1, for line totals
  below \<open>2\<^sup>5\<^sup>1\<close>, accepts it when the unit price is positive and quantity times unit
  price is within 15 percent of the line total. So a line is parsed by the parenthesized
  grammar only when each of the first three grammars passes it on: \<^verbatim>\<open>Teh (2) 500\<close> is
  parsed with quantity 2 and price 500, and \<^verbatim>\<open>Teh (2) 5000\<close> is decided by the bare
  name-price grammar, with the name \<^verbatim>\<open>Teh (2)\<close>, quantity 1 and price 5000.
\<close>

theorem item_grammar_order:
  "(items_of_line item_patterns line = its \<longleftrightarrow>
      decides item_pattern_1 line its \<or>
      passes item_pattern_1 line \<and> decides item_pattern_2 line its \<or>
      passes item_pattern_1 line \<and> passes item_pattern_2 line \<and> decides item_pattern_3 line its \<or>
      passes item_pattern_1 line \<and> passes item_pattern_2 line \<and> passes item_pattern_3 line \<and>
        decides item_pattern_4 line its \<or>
      passes item_pattern_1 line \<and> passes item_pattern_2 line \<and> passes item_pattern_3 line \<and>
        passes item_pattern_4 line \<and> its = []) \<and>
   (re_search True item_pattern_1 line = Some gsa \<longrightarrow>
      (\<exists>n q u t. gsa = [Some n, Some q, Some u, Some t])) \<and>
   (re_search True item_pattern_2 line = Some gsb \<longrightarrow> (\<exists>n q p. gsb = [Some n, Some q, Some p])) \<and>
   (re_search True item_pattern_3 line = Some gsc \<longrightarrow> (\<exists>n p. gsc = [Some n, Some p])) \<and>
   (re_search True item_pattern_4 line = Some gsd \<longrightarrow> (\<exists>n q p. gsd = [Some n, Some q, Some p])) \<and>
   (re_search True item_pattern_1 line = Some [Some na, Some qa, Some ua, Some ta] \<longrightarrow>
      (passes item_pattern_1 line \<longleftrightarrow>
         py_int qa = None \<or> py_int (digits_only ua) = None \<or> py_int (digits_only ta) = None \<or>
         (\<exists>uv tv. py_int (digits_only ua) = Some uv \<and> py_int (digits_only ta) = Some tv \<and>
                  0 < uv \<and> int_to_double tv = Inl OverflowError)) \<and>
      (py_int qa = Some qva \<and> py_int (digits_only ua) = Some uva \<and>
       py_int (digits_only ta) = Some tva \<and> tva < 2 ^ 51 \<longrightarrow>
         (decides item_pattern_1 line its \<longleftrightarrow>
            its = (if 0 < uva \<and> 20 * \<bar>qva * uva - tva\<bar> \<le> 3 * tva
                   then [\<lparr>name = strip na, quantity = qva, price = uva\<rparr>] else [])))) \<and>
   (re_search True item_pattern_2 line = Some [Some nb, Some qb, Some pb] \<longrightarrow>
      (passes item_pattern_2 line \<longleftrightarrow> py_int qb = None \<or> py_int (digits_only pb) = None) \<and>
      (py_int qb = Some qvb \<and> py_int (digits_only pb) = Some pvb \<longrightarrow>
         (decides item_pattern_2 line its \<longleftrightarrow>
            its = (if pvb > 0 \<and> qvb > 0 then [\<lparr>name = strip nb, quantity = qvb, price = pvb\<rparr>]
                   else [])))) \<and>
   (re_search True item_pattern_3 line = Some [Some nc, Some pc] \<longrightarrow>
      (passes item_pattern_3 line \<longleftrightarrow> py_int (digits_only pc) = None) \<and>
      (py_int (digits_only pc) = Some pvc \<longrightarrow>
         (decides item_pattern_3 line its \<longleftrightarrow>
            its = (if pvc > 1000 \<and> length (strip nc) > 2
                   then [\<lparr>name = strip nc, quantity = 1, price = pvc\<rparr>] else [])))) \<and>
   (re_search True item_pattern_4 line = Some [Some nd, Some qd, Some pd] \<longrightarrow>
      (passes item_pattern_4 line \<longleftrightarrow> py_int qd = None \<or> py_int (digits_only pd) = None) \<and>
      (py_int qd = Some qvd \<and> py_int (digits_only pd) = Some pvd \<longrightarrow>
         (decides item_pattern_4 line its \<longleftrightarrow>
            its = (if pvd > 0 \<and> qvd > 0 then [\<lparr>name = strip nd, quantity = qvd, price = pvd\<rparr>]
                   else [])))) \<and>
   items_of_line item_patterns ''Teh (2) 500'' = [\<lparr>name = ''Teh'', quantity = 2, price = 500\<rparr>] \<and>
   items_of_line item_patterns ''Teh (2) 5000'' =
     [\<lparr>name = ''Teh (2)'', quantity = 1, price = 5000\<rparr>]"
proof (intro conjI)
  show "items_of_line item_patterns line = its \<longleftrightarrow>
      decides item_pattern_1 line its \<or>
      passes item_pattern_1 line \<and> decides item_pattern_2 line its \<or>
      passes item_pattern_1 line \<and> passes item_pattern_2 line \<and> decides item_pattern_3 line its \<or>
      passes item_pattern_1 line \<and> passes item_pattern_2 line \<and> passes item_pattern_3 line \<and>
        decides item_pattern_4 line its \<or>
      passes item_pattern_1 line \<and> passes item_pattern_2 line \<and> passes item_pattern_3 line \<and>
        passes item_pattern_4 line \<and> its = []"
    unfolding items_of_line_patterns passes_def decides_def
    by (auto split: option.splits tried.splits)
next
  show "re_search True item_pattern_1 line = Some gsa \<longrightarrow>
      (\<exists>n q u t. gsa = [Some n, Some q, Some u, Some t])"
    using item_pattern_groups(1) by blast
next
  show "re_search True item_pattern_2 line = Some gsb \<longrightarrow> (\<exists>n q p. gsb = [Some n, Some q, Some p])"
    using item_pattern_groups(2) by blast
next
  show "re_search True item_pattern_3 line = Some gsc \<longrightarrow> (\<exists>n p. gsc = [Some n, Some p])"
    using item_pattern_groups(3) by blast
next
  show "re_search True item_pattern_4 line = Some gsd \<longrightarrow> (\<exists>n q p. gsd = [Some n, Some q, Some p])"
    using item_pattern_groups(4) by blast
next
  show "re_search True item_pattern_1 line = Some [Some na, Some qa, Some ua, Some ta] \<longrightarrow>
      (passes item_pattern_1 line \<longleftrightarrow>
         py_int qa = None \<or> py_int (digits_only ua) = None \<or> py_int (digits_only ta) = None \<or>
         (\<exists>uv tv. py_int (digits_only ua) = Some uv \<and> py_int (digits_only ta) = Some tv \<and>
                  0 < uv \<and> int_to_double tv = Inl OverflowError)) \<and>
      (py_int qa = Some qva \<and> py_int (digits_only ua) = Some uva \<and>
       py_int (digits_only ta) = Some tva \<and> tva < 2 ^ 51 \<longrightarrow>
         (decides item_pattern_1 line its \<longleftrightarrow>
            its = (if 0 < uva \<and> 20 * \<bar>qva * uva - tva\<bar> \<le> 3 * tva
                   then [\<lparr>name = strip na, quantity = qva, price = uva\<rparr>] else [])))"
  proof (intro impI conjI)
    assume m: "re_search True item_pattern_1 line = Some [Some na, Some qa, Some ua, Some ta]"
    show "passes item_pattern_1 line \<longleftrightarrow>
         py_int qa = None \<or> py_int (digits_only ua) = None \<or> py_int (digits_only ta) = None \<or>
         (\<exists>uv tv. py_int (digits_only ua) = Some uv \<and> py_int (digits_only ta) = Some tv \<and>
                  0 < uv \<and> int_to_double tv = Inl OverflowError)"
      using m int_to_double_error
      by (auto simp: passes_def split: option.splits sum.splits if_splits)
    assume "py_int qa = Some qva \<and> py_int (digits_only ua) = Some uva \<and>
       py_int (digits_only ta) = Some tva \<and> tva < 2 ^ 51"
    then have "item_try [Some na, Some qa, Some ua, Some ta] =
       Broke (if 0 < uva \<and> 20 * \<bar>qva * uva - tva\<bar> \<le> 3 * tva
              then [\<lparr>name = strip na, quantity = qva, price = uva\<rparr>] else [])"
      using item_try_grammar1[of qa qva ua uva ta tva na] by blast
    with m show "decides item_pattern_1 line its \<longleftrightarrow>
            its = (if 0 < uva \<and> 20 * \<bar>qva * uva - tva\<bar> \<le> 3 * tva
                   then [\<lparr>name = strip na, quantity = qva, price = uva\<rparr>] else [])"
      by (auto simp: decides_def simp del: item_try.simps)
  qed
next
  show "re_search True item_pattern_2 line = Some [Some nb, Some qb, Some pb] \<longrightarrow>
      (passes item_pattern_2 line \<longleftrightarrow> py_int qb = None \<or> py_int (digits_only pb) = None) \<and>
      (py_int qb = Some qvb \<and> py_int (digits_only pb) = Some pvb \<longrightarrow>
         (decides item_pattern_2 line its \<longleftrightarrow>
            its = (if pvb > 0 \<and> qvb > 0 then [\<lparr>name = strip nb, quantity = qvb, price = pvb\<rparr>]
                   else [])))"
    by (auto simp: passes_def decides_def split: option.splits)
next
  show "re_search True item_pattern_3 line = Some [Some nc, Some pc] \<longrightarrow>
      (passes item_pattern_3 line \<longleftrightarrow> py_int (digits_only pc) = None) \<and>
      (py_int (digits_only pc) = Some pvc \<longrightarrow>
         (decides item_pattern_3 line its \<longleftrightarrow>
            its = (if pvc > 1000 \<and> length (strip nc) > 2
                   then [\<lparr>name = strip nc, quantity = 1, price = pvc\<rparr>] else [])))"
    by (auto simp: passes_def decides_def split: option.splits)
next
  show "re_search True item_pattern_4 line = Some [Some nd, Some qd, Some pd] \<longrightarrow>
      (passes item_pattern_4 line \<longleftrightarrow> py_int qd = None \<or> py_int (digits_only pd) = None) \<and>
      (py_int qd = Some qvd \<and> py_int (digits_only pd) = Some pvd \<longrightarrow>
         (decides item_pattern_4 line its \<longleftrightarrow>
            its = (if pvd > 0 \<and> qvd > 0 then [\<lparr>name = strip nd, quantity = qvd, price = pvd\<rparr>]
                   else [])))"
    by (auto simp: passes_def decides_def split: option.splits)
next
  show "items_of_line item_patterns ''Teh (2) 500'' = [\<lparr>name = ''Teh'', quantity = 2, price = 500\<rparr>]"
    by code_simp
next
  show "items_of_line item_patterns ''Teh (2) 5000'' =
     [\<lparr>name = ''Teh (2)'', quantity = 1, price = 5000\<rparr>]"
    by code_simp
qed

theorem item_grammar_order_witness:
  "(passes item_pattern_1 ''Teh (2) 500 ....'' \<and> passes item_pattern_2 ''Teh (2) 500 ....'' \<and>
    re_search True item_pattern_3 ''Teh (2) 500 ....'' = Some [Some ''Teh (2) 500'', Some ''....''] \<and>
    py_int (digits_only ''....'') = None \<and>
    re_search True item_pattern_4 ''Teh (2) 500 ....'' = Some [Some ''Teh'', Some ''2'', Some ''500''] \<and>
    py_int ''2'' = Some 2 \<and> py_int (digits_only ''500'') = Some 500) \<and>
   items_of_line item_patterns ''Teh (2) 500 ....'' = [\<lparr>name = ''Teh'', quantity = 2, price = 500\<rparr>] \<and>
   (re_search True item_pattern_1 ''Kopi 2 . 5000'' =
      Some [Some ''Kopi'', Some ''2'', Some ''.'', Some ''5000''] \<and>
    py_int (digits_only ''.'') = None \<and> passes item_pattern_2 ''Kopi 2 . 5000'' \<and>
    re_search True item_pattern_3 ''Kopi 2 . 5000'' = Some [Some ''Kopi 2 .'', Some ''5000''] \<and>
    py_int (digits_only ''5000'') = Some 5000) \<and>
   items_of_line item_patterns ''Kopi 2 . 5000'' =
     [\<lparr>name = ''Kopi 2 .'', quantity = 1, price = 5000\<rparr>] \<and>
   (re_search True item_pattern_1 ''Apple 2 1000 2100'' =
      Some [Some ''Apple'', Some ''2'', Some ''1000'', Some ''2100''] \<and>
    py_int ''2'' = Some 2 \<and> py_int (digits_only ''1000'') = Some 1000 \<and>
    py_int (digits_only ''2100'') = Some 2100 \<and> (2100::int) < 2 ^ 51) \<and>
   items_of_line item_patterns ''Apple 2 1000 2100'' =
     [\<lparr>name = ''Apple'', quantity = 2, price = 1000\<rparr>] \<and>
   (passes item_pattern_1 ''Kopi 2 x 15000'' \<and>
    re_search True item_pattern_2 ''Kopi 2 x 15000'' = Some [Some ''Kopi'', Some ''2'', Some ''15000''] \<and>
    py_int ''2'' = Some 2 \<and> py_int (digits_only ''15000'') = Some 15000) \<and>
   items_of_line item_patterns ''Kopi 2 x 15000'' =
     [\<lparr>name = ''Kopi'', quantity = 2, price = 15000\<rparr>] \<and>
   (passes item_pattern_1 ''Terima kasih'' \<and> passes item_pattern_2 ''Terima kasih'' \<and>
    passes item_pattern_3 ''Terima kasih'' \<and> passes item_pattern_4 ''Terima kasih'') \<and>
   items_of_line item_patterns ''Terima kasih'' = []"
proof -
  have fa: "passes item_pattern_1 ''Teh (2) 500 ....'' \<and> passes item_pattern_2 ''Teh (2) 500 ....'' \<and>
    re_search True item_pattern_3 ''Teh (2) 500 ....'' = Some [Some ''Teh (2) 500'', Some ''....''] \<and>
    py_int (digits_only ''....'') = None \<and>
    re_search True item_pattern_4 ''Teh (2) 500 ....'' = Some [Some ''Teh'', Some ''2'', Some ''500''] \<and>
    py_int ''2'' = Some 2 \<and> py_int (digits_only ''500'') = Some 500"
    by code_simp
  have sa: "strip ''Teh'' = ''Teh''"
    by code_simp
  have ra: "items_of_line item_patterns ''Teh (2) 500 ....'' = [\<lparr>name = ''Teh'', quantity = 2, price = 500\<rparr>]"
    using fa sa
      item_grammar_order[where line = "''Teh (2) 500 ....''"
      and its = "[\<lparr>name = ''Teh'', quantity = 2, price = 500\<rparr>]"
      and nc = "''Teh (2) 500''" and pc = "''....''"
      and nd = "''Teh''" and qd = "''2''" and pd = "''500''" and qvd = 2 and pvd = 500]
    by simp
  have fb: "re_search True item_pattern_1 ''Kopi 2 . 5000'' =
      Some [Some ''Kopi'', Some ''2'', Some ''.'', Some ''5000''] \<and>
    py_int (digits_only ''.'') = None \<and> passes item_pattern_2 ''Kopi 2 . 5000'' \<and>
    re_search True item_pattern_3 ''Kopi 2 . 5000'' = Some [Some ''Kopi 2 .'', Some ''5000''] \<and>
    py_int (digits_only ''5000'') = Some 5000"
    by code_simp
  have sb: "strip ''Kopi 2 .'' = ''Kopi 2 .''"
    by code_simp
  have rb: "items_of_line item_patterns ''Kopi 2 . 5000'' =
     [\<lparr>name = ''Kopi 2 .'', quantity = 1, price = 5000\<rparr>]"
    using fb sb
      item_grammar_order[where line = "''Kopi 2 . 5000''"
      and its = "[\<lparr>name = ''Kopi 2 .'', quantity = 1, price = 5000\<rparr>]"
      and na = "''Kopi''" and qa = "''2''" and ua = "''.''" and ta = "''5000''"
      and nc = "''Kopi 2 .''" and pc = "''5000''" and pvc = 5000]
    by simp
  have fc: "re_search True item_pattern_1 ''Apple 2 1000 2100'' =
      Some [Some ''Apple'', Some ''2'', Some ''1000'', Some ''2100''] \<and>
    py_int ''2'' = Some 2 \<and> py_int (digits_only ''1000'') = Some 1000 \<and>
    py_int (digits_only ''2100'') = Some 2100"
    by code_simp
  have sc: "strip ''Apple'' = ''Apple''"
    by code_simp
  have rc: "items_of_line item_patterns ''Apple 2 1000 2100'' =
     [\<lparr>name = ''Apple'', quantity = 2, price = 1000\<rparr>]"
    using fc sc
      item_grammar_order[where line = "''Apple 2 1000 2100''"
      and its = "[\<lparr>name = ''Apple'', quantity = 2, price = 1000\<rparr>]"
      and na = "''Apple''" and qa = "''2''" and ua = "''1000''" and ta = "''2100''"
      and qva = 2 and uva = 1000 and tva = 2100]
    by simp
  have fd: "passes item_pattern_1 ''Kopi 2 x 15000'' \<and>
    re_search True item_pattern_2 ''Kopi 2 x 15000'' = Some [Some ''Kopi'', Some ''2'', Some ''15000''] \<and>
    py_int ''2'' = Some 2 \<and> py_int (digits_only ''15000'') = Some 15000"
    by code_simp
  have sd: "strip ''Kopi'' = ''Kopi''"
    by code_simp
  have rd: "items_of_line item_patterns ''Kopi 2 x 15000'' =
     [\<lparr>name = ''Kopi'', quantity = 2, price = 15000\<rparr>]"
    using fd sd
      item_grammar_order[where line = "''Kopi 2 x 15000''"
      and its = "[\<lparr>name = ''Kopi'', quantity = 2, price = 15000\<rparr>]"
      and nb = "''Kopi''" and qb = "''2''" and pb = "''15000''" and qvb = 2 and pvb = 15000]
    by simp
  have fe: "passes item_pattern_1 ''Terima kasih'' \<and> passes item_pattern_2 ''Terima kasih'' \<and>
    passes item_pattern_3 ''Terima kasih'' \<and> passes item_pattern_4 ''Terima kasih''"
    by code_simp
  have re: "items_of_line item_patterns ''Terima kasih'' = []"
    using fe 
      item_grammar_order[where line = "''Terima kasih''" and its = "[]"]
    by simp
  from fa fb fc fd fe ra rb rc rd re show ?thesis by simp
qed

text \<open>
  C9. The claim: every item of the parsed receipt has a quantity of at least 1, the items of
  the four-group grammar included. The four-group branch tests the unit price and the
  arithmetic only, where the three-group branch tests \<^verbatim>\<open>quantity > 0\<close>: the line
  \<^verbatim>\<open>Apple 0 5000 0\<close> passes (0 times 5000 is within 15 percent of 0) and gives an item with
  quantity 0.
\<close>

theorem zero_quantity_item:
  "map_sum id items (smart_parse_receipt ''2026-11-04'' ''Apple 0 5000 0'') =
     Inr [\<lparr>name = ''Apple'', quantity = 0, price = 5000\<rparr>]"
  unfolding parse_items by code_simp

section \<open>Total extraction\<close>

lemma accepted_amount_skip:
  assumes "accepted_amount pats line t"
    and "\<And>g'. re_search True pat line = Some [Some g'] \<Longrightarrow> length (digits_only g') < 3"
  shows "accepted_amount (pat # pats) line t"
proof -
  from assms(1) obtain i g where i: "i < length pats"
    "re_search True (pats ! i) line = Some [Some g]" "3 \<le> length (digits_only g)"
    "py_int (digits_only g) = Some t"
    "\<forall>j<i. \<forall>g'. re_search True (pats ! j) line = Some [Some g'] \<longrightarrow> length (digits_only g') < 3"
    unfolding accepted_amount_def by blast
  have "\<forall>j<Suc i. \<forall>g'. re_search True ((pat # pats) ! j) line = Some [Some g'] \<longrightarrow>
           length (digits_only g') < 3"
  proof (intro allI impI)
    fix j g' assume "j < Suc i" "re_search True ((pat # pats) ! j) line = Some [Some g']"
    then show "length (digits_only g') < 3"
      using assms(2) i(5) by (cases j) auto
  qed
  with i show ?thesis unfolding accepted_amount_def
    by (intro exI[of _ "Suc i"] exI[of _ g]) simp
qed

lemma total_of_line_result:
  "\<forall>pat\<in>set pats. ngroups pat = 1 \<and> 0 \<in> must pat \<Longrightarrow>
   total_of_line pats line t = Inr t' \<Longrightarrow> t' = t \<or> accepted_amount pats line t'"
proof (induction pats)
  case Nil
  then show ?case by simp
next
  case (Cons pat pats)
  show ?case
  proof (cases "re_search True pat line")
    case None
    with Cons have "t' = t \<or> accepted_amount pats line t'" by simp
    with None show ?thesis using accepted_amount_skip[of pats line t' pat] by auto
  next
    case (Some gs)
    with Cons.prems total_pattern_groups[of pat True line gs] obtain g where gs: "gs = [Some g]"
      by auto
    show ?thesis
    proof (cases "digits_only g \<noteq> [] \<and> length (digits_only g) \<ge> 3")
      case True
      with Cons.prems Some gs have "py_int (digits_only g) = Some t'"
        by (auto split: option.splits)
      with True Some gs have "accepted_amount (pat # pats) line t'"
        unfolding accepted_amount_def by (intro exI[of _ 0] exI[of _ g]) simp
      then show ?thesis by simp
    next
      case False
      then have short: "length (digits_only g) < 3" by (cases "digits_only g") auto
      from False Cons Some gs have "t' = t \<or> accepted_amount pats line t'"
        by (auto simp: Let_def)
      with Some gs short show ?thesis using accepted_amount_skip[of pats line t' pat] by auto
    qed
  qed
qed

lemma accepted_amount_nonneg: "accepted_amount pats line t \<Longrightarrow> 0 \<le> t"
  unfolding accepted_amount_def using py_int_nonneg by blast

lemma extract_total_result:
  "extract_total lines 0 = Inr t \<Longrightarrow> t \<noteq> 0 \<Longrightarrow>
   \<exists>line\<in>set lines. accepted_amount total_patterns line t"
proof (induction lines)
  case Nil
  then show ?case by simp
next
  case (Cons line lines)
  show ?case
  proof (cases "total_of_line total_patterns line 0")
    case (Inl e)
    with Cons.prems show ?thesis by simp
  next
    case (Inr t1)
    from total_of_line_result[OF _ Inr] total_patterns_shape
    have r: "t1 = 0 \<or> accepted_amount total_patterns line t1" by blast
    show ?thesis
    proof (cases "t1 > 0")
      case True
      with Inr Cons.prems have "t = t1" by simp
      with r True show ?thesis by auto
    next
      case False
      with r accepted_amount_nonneg[of total_patterns line t1] have "t1 = 0" by auto
      with Inr Cons show ?thesis by simp
    qed
  qed
qed

text \<open>
  C8. The claim: a nonzero total is the value of a digit string of at least 3 digits taken
  from the first matching total pattern of some line. The \<^verbatim>\<open>break\<close> of the pattern loop
  sits inside the length test, so after a match that keeps fewer than 3 digits the next
  patterns are tried on the same line: on \<^verbatim>\<open>TOTAL 12 Rp 5000\<close> the first pattern matches
  with \<^verbatim>\<open>12\<close>, and the total 5000 comes from the second pattern.
\<close>

theorem total_first_match_counterexample:
  "split_lines ''TOTAL 12 Rp 5000'' = [''TOTAL 12 Rp 5000''] \<and>
   re_search True (total_patterns ! 0) ''TOTAL 12 Rp 5000'' = Some [Some ''12''] \<and>
   digits_only ''12'' = ''12'' \<and>
   map_sum id total (smart_parse_receipt ''2026-11-04'' ''TOTAL 12 Rp 5000'') = Inr 5000"
  unfolding parse_total by code_simp

text \<open>
  C8, amended. Whenever the extracted total is nonzero, it is the integer value of a
  digit-only string of at least 3 digits, taken from the match of a total pattern on some
  line: the first pattern, in priority order, whose match on that line keeps at least 3
  digits. A match that keeps fewer than 3 digits is never accepted, and a text whose only
  line is \<^verbatim>\<open>Qty 12\<close> leaves the total 0.
\<close>

theorem total_from_three_digits:
  "(map_sum id total (smart_parse_receipt today raw) = Inr t \<and> t \<noteq> 0 \<longrightarrow>
      (\<exists>line\<in>set (split_lines raw). \<exists>i<length total_patterns. \<exists>g.
          re_search True (total_patterns ! i) line = Some [Some g] \<and>
          3 \<le> length (digits_only g) \<and> py_int (digits_only g) = Some t \<and>
          (\<forall>j<i. \<forall>g'. re_search True (total_patterns ! j) line = Some [Some g'] \<longrightarrow>
             length (digits_only g') < 3))) \<and>
   map_sum id total (smart_parse_receipt today ''Qty 12'') = Inr 0"
proof (intro conjI impI)
  assume "map_sum id total (smart_parse_receipt today raw) = Inr t \<and> t \<noteq> 0"
  then have "extract_total (split_lines raw) 0 = Inr t" "t \<noteq> 0"
    unfolding parse_total by simp_all
  from extract_total_result[OF this]
  show "\<exists>line\<in>set (split_lines raw). \<exists>i<length total_patterns. \<exists>g.
          re_search True (total_patterns ! i) line = Some [Some g] \<and>
          3 \<le> length (digits_only g) \<and> py_int (digits_only g) = Some t \<and>
          (\<forall>j<i. \<forall>g'. re_search True (total_patterns ! j) line = Some [Some g'] \<longrightarrow>
             length (digits_only g') < 3)"
    unfolding accepted_amount_def .
next
  show "map_sum id total (smart_parse_receipt today ''Qty 12'') = Inr 0"
    unfolding parse_total by code_simp
qed

theorem total_from_three_digits_witness:
  "(map_sum id total (smart_parse_receipt ''2026-11-04'' ''TOTAL 12 Rp 5000'') = Inr 5000 \<and>
    (5000::int) \<noteq> 0) \<and>
   (\<exists>line\<in>set (split_lines ''TOTAL 12 Rp 5000''). \<exists>i<length total_patterns. \<exists>g.
          re_search True (total_patterns ! i) line = Some [Some g] \<and>
          3 \<le> length (digits_only g) \<and> py_int (digits_only g) = Some 5000 \<and>
          (\<forall>j<i. \<forall>g'. re_search True (total_patterns ! j) line = Some [Some g'] \<longrightarrow>
             length (digits_only g') < 3))"
proof -
  have h: "map_sum id total (smart_parse_receipt ''2026-11-04'' ''TOTAL 12 Rp 5000'') = Inr 5000"
    unfolding parse_total by code_simp
  from h total_from_three_digits[of "''2026-11-04''" "''TOTAL 12 Rp 5000''" 5000]
  show ?thesis by simp
qed

end
